theory Spec2Isabelle
  imports Complex_Main "HOL-Library.Log_Nat"
begin

section \<open>Numbers\<close>

text \<open>
  Prices, sizes, profits and the balance are JavaScript numbers: IEEE 754 double precision
  values. A finite double is a rational, so a number is modelled as a rational, or one of
  the infinities, or NaN. The sign of a zero is not kept: the component never divides,
  and no other operation it uses tells the two zeros apart.
\<close>

datatype jsnum = Fin rat | PInf | NInf | NaN

subsection \<open>Rounding to a double\<close>

text \<open>
  \<open>pow2 k\<close> is \<open>2^k\<close> for an integer \<open>k\<close>, and \<open>ilog2 x\<close> the exponent of the binade of a
  positive \<open>x\<close>, the integer \<open>e\<close> with \<open>2^e \<le> x < 2^(e+1)\<close>. \<open>rne\<close> rounds to the nearest
  integer, to the even one on a tie. \<open>fl64 x\<close> is the double nearest to \<open>x\<close>: \<open>x\<close> is
  rounded to a multiple of the unit in the last of 53 significant bits, and below
  \<open>2^-1022\<close> to a multiple of \<open>2^-1074\<close>. \<open>to_js\<close> is the whole rounding of a result:
  a rounded value whose exponent is beyond 1023, the largest of a double, overflows to an
  infinity.
\<close>

definition pow2 :: "int \<Rightarrow> rat" where
  "pow2 k = (if 0 \<le> k then 2 ^ nat k else 1 / 2 ^ nat (- k))"

definition ilog2 :: "rat \<Rightarrow> int" where
  "ilog2 x = (if 1 \<le> x then bitlen \<lfloor>x\<rfloor> - 1 else - bitlen (\<lceil>1 / x\<rceil> - 1))"

definition rne :: "rat \<Rightarrow> int" where
  "rne m =
     (let f = \<lfloor>m\<rfloor>; d = m - of_int f
      in if d < 1 / 2 then f else if 1 / 2 < d then f + 1 else if even f then f else f + 1)"

definition fl64 :: "rat \<Rightarrow> rat" where
  "fl64 x =
     (if x = 0 then 0
      else (let ulp = pow2 (max (ilog2 \<bar>x\<bar>) (- 1022) - 52)
            in of_int (rne (x / ulp)) * ulp))"

definition to_js :: "rat \<Rightarrow> jsnum" where
  "to_js x =
     (let y = fl64 x
      in if y = 0 then Fin 0
         else if 1024 \<le> ilog2 \<bar>y\<bar> then (if 0 < y then PInf else NInf)
         else Fin y)"

subsection \<open>Arithmetic\<close>

text \<open>
  \<^verbatim>\<open>a + b\<close>, \<^verbatim>\<open>a - b\<close> and \<^verbatim>\<open>a * b\<close> on numbers: the exact result rounded to a
  double, with the IEEE rules for infinities and NaN.
\<close>

fun jneg :: "jsnum \<Rightarrow> jsnum" where
  "jneg (Fin a) = Fin (- a)"
| "jneg PInf = NInf"
| "jneg NInf = PInf"
| "jneg NaN = NaN"

fun jadd :: "jsnum \<Rightarrow> jsnum \<Rightarrow> jsnum" where
  "jadd (Fin a) (Fin b) = to_js (a + b)"
| "jadd NaN y = NaN"
| "jadd x NaN = NaN"
| "jadd PInf NInf = NaN"
| "jadd NInf PInf = NaN"
| "jadd PInf y = PInf"
| "jadd NInf y = NInf"
| "jadd (Fin a) y = y"

definition jsub :: "jsnum \<Rightarrow> jsnum \<Rightarrow> jsnum" where
  "jsub x y = jadd x (jneg y)"

text \<open>The sign of a number as \<open>-1\<close>, \<open>0\<close> or \<open>1\<close>; NaN has none.\<close>

fun jsign :: "jsnum \<Rightarrow> int option" where
  "jsign (Fin a) = Some (if a < 0 then - 1 else if a = 0 then 0 else 1)"
| "jsign PInf = Some 1"
| "jsign NInf = Some (- 1)"
| "jsign NaN = None"

fun jmul :: "jsnum \<Rightarrow> jsnum \<Rightarrow> jsnum" where
  "jmul (Fin a) (Fin b) = to_js (a * b)"
| "jmul x y =
     (case (jsign x, jsign y) of
        (Some i, Some j) \<Rightarrow> if i * j = 0 then NaN else if 0 < i * j then PInf else NInf
      | _ \<Rightarrow> NaN)"

subsection \<open>Fixed decimals\<close>

text \<open>
  \<^verbatim>\<open>x.toFixed(f)\<close> works on the magnitude of \<open>x\<close>: a negative \<open>x\<close> is negated and the
  sign put back, and the digits are those of the integer \<open>n\<close> for which \<open>n / 10^f\<close> is
  closest to the magnitude, the larger \<open>n\<close> on a tie. \<open>toFixed f x\<close> is the number that
  these digits write. The source always reads the digits back with a unary \<open>+\<close>, which
  gives the double nearest to them: \<open>toFixed_num f x\<close> is \<^verbatim>\<open>+(x).toFixed(f)\<close>. From
  \<open>10^21\<close> on, and for an infinity or NaN, \<^verbatim>\<open>toFixed\<close> prints the number as
  \<^verbatim>\<open>toString\<close> does, and reading that back gives the number itself.
\<close>

definition toFixed :: "nat \<Rightarrow> rat \<Rightarrow> rat" where
  "toFixed f x =
     (if x < 0 then - (of_int \<lfloor>(- x) * 10 ^ f + 1 / 2\<rfloor> / 10 ^ f)
      else of_int \<lfloor>x * 10 ^ f + 1 / 2\<rfloor> / 10 ^ f)"

fun toFixed_num :: "nat \<Rightarrow> jsnum \<Rightarrow> jsnum" where
  "toFixed_num f (Fin x) = (if 10 ^ 21 \<le> \<bar>x\<bar> then Fin x else to_js (toFixed f x))"
| "toFixed_num f y = y"

text \<open>A number with at most \<open>f\<close> decimals: an integer multiple of \<open>10^-f\<close>.\<close>

definition decimals :: "nat \<Rightarrow> rat \<Rightarrow> bool" where
  "decimals f x = (of_int \<lfloor>x * 10 ^ f\<rfloor> = x * 10 ^ f)"

text \<open>
  A double that \<^verbatim>\<open>+(x).toFixed(f)\<close> can give: the double nearest to the number with
  \<open>f\<close> decimals that it prints as.
\<close>

definition fixed :: "nat \<Rightarrow> rat \<Rightarrow> bool" where
  "fixed f x = (fl64 (toFixed f x) = x)"

text \<open>Finiteness and the value of a finite number.\<close>

fun is_fin :: "jsnum \<Rightarrow> bool" where
  "is_fin (Fin x) = True"
| "is_fin y = False"

fun num :: "jsnum \<Rightarrow> rat" where
  "num (Fin x) = x"
| "num y = 0"

section \<open>Data\<close>

text \<open>
  The order objects built by \<^verbatim>\<open>placeOrder\<close> carry \<^verbatim>\<open>id, side, size, price, status,
  placedAt\<close>; the settlement callback adds \<^verbatim>\<open>filledAt\<close> and \<^verbatim>\<open>pnl\<close>. A field
  that the object does not have yet is \<open>None\<close>. The field names \<^verbatim>\<open>id\<close>,
  \<^verbatim>\<open>size\<close> and \<^verbatim>\<open>price\<close> of an order are written \<open>oid\<close>, \<open>osize\<close> and \<open>oprice\<close>.
\<close>

datatype side = Buy | Sell

datatype status = Pending | Filled

record order =
  oid :: string
  side :: side
  osize :: jsnum
  oprice :: jsnum
  status :: status
  placedAt :: string
  filledAt :: "string option"
  pnl :: "jsnum option"

record candle =
  ctime :: string
  cprice :: jsnum

text \<open>
  Feed entries are \<^verbatim>\<open>{type, text, time}\<close>. The texts are template strings; the model
  keeps the template and the values spliced into it instead of the formatted characters.
\<close>

datatype feed_type = PriceEv | OrderEv | TradeEv | SystemEv | ErrorEv

datatype feed_text =
    PriceText jsnum
  | PlacedText side jsnum jsnum
  | FilledText string jsnum
  | Literal string

record feed_event =
  ftype :: feed_type
  ftext :: feed_text
  ftime :: string

text \<open>
  The \<^verbatim>\<open>useState\<close> cells of the component that the trading logic reads or writes.
  The chat messages, the digit panel, \<^verbatim>\<open>position\<close> and \<^verbatim>\<open>wsRef\<close> take no part
  in it and are left out.
\<close>

record state =
  apiToken :: string
  connected :: bool
  balance :: jsnum
  price :: jsnum
  candles :: "candle list"
  orders :: "order list"
  feed :: "feed_event list"

text \<open>The initial values of the cells; the literal \<^verbatim>\<open>1.1000\<close> is the double nearest to 1.1.\<close>

definition init_state :: state where
  "init_state =
     \<lparr>apiToken = [], connected = False, balance = Fin 1000, price = to_js (11 / 10),
      candles = [], orders = [], feed = []\<rparr>"

section \<open>Bounded lists\<close>

text \<open>
  Every feed update of the source has the shape
  \<^verbatim>\<open>setFeed(f=>[ev, ...f].slice(0,50))\<close>; \<open>publish\<close> is that updater.
  \<open>slice_last n\<close> is \<^verbatim>\<open>.slice(-n)\<close>.
\<close>

definition publish :: "feed_event \<Rightarrow> feed_event list \<Rightarrow> feed_event list" where
  "publish ev f = take 50 (ev # f)"

definition slice_last :: "nat \<Rightarrow> 'a list \<Rightarrow> 'a list" where
  "slice_last n xs = drop (length xs - n) xs"

section \<open>Operations\<close>

text \<open>
  \<^verbatim>\<open>Math.random()\<close> and \<^verbatim>\<open>new Date().toLocaleTimeString()\<close> are inputs of each
  operation: the value drawn, a double in \<open>[0, 1)\<close>, and the clock string read.
\<close>

subsection \<open>Mount: the warm-up history\<close>

text \<open>
  The first effect builds 80 candles and makes the last one the current price. \<open>raw i\<close>
  stands for the value of \<^verbatim>\<open>1.08 + Math.sin(i/10)*0.01 + Math.random()*0.002\<close> and
  \<open>tm i\<close> for the time string of candle \<open>i\<close>.
\<close>

definition mount :: "(nat \<Rightarrow> jsnum) \<Rightarrow> (nat \<Rightarrow> string) \<Rightarrow> state \<Rightarrow> state" where
  "mount raw tm s =
     (let initial = map (\<lambda>i. \<lparr>ctime = tm i, cprice = toFixed_num 5 (raw i)\<rparr>) [0..<80]
      in s\<lparr>candles := initial, price := cprice (initial ! (length initial - 1))\<rparr>)"

subsection \<open>Price tick\<close>

definition tick :: "rat \<Rightarrow> string \<Rightarrow> state \<Rightarrow> state" where
  "tick r t s =
     (let delta = jmul (jsub (Fin r) (Fin (1 / 2))) (to_js (15 / 10000));
          next = toFixed_num 5 (jadd (price s) delta)
      in s\<lparr>candles := slice_last 200 (candles s @ [\<lparr>ctime = t, cprice = next\<rparr>]),
            feed := publish \<lparr>ftype = PriceEv, ftext = PriceText next, ftime = t\<rparr> (feed s),
            price := next\<rparr>)"

subsection \<open>Settlement sweep\<close>

text \<open>
  What one run of the \<^verbatim>\<open>os.map\<close> callback reads from outside: the random number
  and the two clock strings (the feed entry's and \<^verbatim>\<open>filledAt\<close>).
\<close>

record draw =
  rnd :: rat
  evTime :: string
  fillTime :: string

definition profit_of :: "jsnum \<Rightarrow> order \<Rightarrow> jsnum" where
  "profit_of p od =
     toFixed_num 2
       (jmul (if side od = Buy then jsub p (oprice od) else jsub (oprice od) p)
          (jmul (osize od) (Fin 100)))"

text \<open>The updater \<^verbatim>\<open>b=>+(b + profit).toFixed(2)\<close> of the balance.\<close>

definition credit :: "jsnum \<Rightarrow> jsnum \<Rightarrow> jsnum" where
  "credit b profit = toFixed_num 2 (jadd b profit)"

text \<open>
  The callback of \<^verbatim>\<open>os.map\<close>. It returns the order for the new list; its calls of
  \<^verbatim>\<open>setBalance\<close> and \<^verbatim>\<open>setFeed\<close> are applied to the state in call order. The
  \<^verbatim>\<open>setOrders\<close> updater that holds the map is taken to run once per sweep, and the
  \<^verbatim>\<open>price\<close> it closes over is the current one: the effect that installs the timer is
  run again whenever the price changes.
\<close>

definition settle_order :: "jsnum \<Rightarrow> draw \<Rightarrow> order \<Rightarrow> state \<Rightarrow> order \<times> state" where
  "settle_order p d od s =
     (if status od = Pending \<and> rnd d > 1 / 2 then
        (let profit = profit_of p od
         in (od\<lparr>status := Filled, filledAt := Some (fillTime d), pnl := Some profit\<rparr>,
             s\<lparr>balance := credit (balance s) profit,
               feed := publish \<lparr>ftype = TradeEv, ftext = FilledText (oid od) profit,
                                ftime = evTime d\<rparr> (feed s)\<rparr>))
      else (od, s))"

text \<open>
  The map itself. \<open>env k\<close> is what the \<open>k\<close>-th evaluation of \<^verbatim>\<open>Math.random()\<close> in
  this sweep sees; \<^verbatim>\<open>&&\<close> evaluates it for pending orders only.
\<close>

fun settle_all :: "jsnum \<Rightarrow> (nat \<Rightarrow> draw) \<Rightarrow> nat \<Rightarrow> order list \<Rightarrow> state \<Rightarrow> order list \<times> state" where
  "settle_all p env k [] s = ([], s)"
| "settle_all p env k (od # os) s =
     (case settle_order p (env k) od s of
        (od', s') \<Rightarrow>
          (case settle_all p env (if status od = Pending then Suc k else k) os s' of
             (os', s'') \<Rightarrow> (od' # os', s'')))"

definition sweep :: "(nat \<Rightarrow> draw) \<Rightarrow> state \<Rightarrow> state" where
  "sweep env s =
     (if orders s = [] then s
      else (case settle_all (price s) env 0 (orders s) s of
              (updated, s') \<Rightarrow> s'\<lparr>orders := updated\<rparr>))"

subsection \<open>Trading and account actions\<close>

definition placeOrder :: "string \<Rightarrow> string \<Rightarrow> side \<Rightarrow> jsnum \<Rightarrow> state \<Rightarrow> state" where
  "placeOrder newid t sd sz s =
     (let ord = \<lparr>oid = newid, side = sd, osize = sz, oprice = price s, status = Pending,
                 placedAt = t, filledAt = None, pnl = None\<rparr>
      in s\<lparr>orders := take 50 (ord # orders s),
            feed := publish \<lparr>ftype = OrderEv, ftext = PlacedText sd (price s) sz,
                             ftime = placedAt ord\<rparr> (feed s)\<rparr>)"

definition toggleConnect :: "string \<Rightarrow> state \<Rightarrow> state" where
  "toggleConnect t s =
     (if connected s then
        s\<lparr>connected := False,
          feed := publish \<lparr>ftype = SystemEv, ftext = Literal ''Disconnected from market'',
                           ftime = t\<rparr> (feed s)\<rparr>
      else if apiToken s = [] then
        s\<lparr>feed := publish \<lparr>ftype = ErrorEv,
                           ftext = Literal ''No API token configured. Use settings.'',
                           ftime = t\<rparr> (feed s)\<rparr>
      else
        s\<lparr>connected := True,
          feed := publish \<lparr>ftype = SystemEv, ftext = Literal ''Connected to market (mock)'',
                           ftime = t\<rparr> (feed s)\<rparr>)"

text \<open>The settings button: \<^verbatim>\<open>if(token) setApiToken(token)\<close>.\<close>

definition setToken :: "string \<Rightarrow> state \<Rightarrow> state" where
  "setToken token s = (if token = [] then s else s\<lparr>apiToken := token\<rparr>)"

definition deposit :: "string \<Rightarrow> state \<Rightarrow> state" where
  "deposit t s =
     s\<lparr>balance := jadd (balance s) (Fin 100),
       feed := publish \<lparr>ftype = SystemEv, ftext = Literal ''Deposited $100 (demo)'',
                        ftime = t\<rparr> (feed s)\<rparr>"

definition resetAccount :: "string \<Rightarrow> state \<Rightarrow> state" where
  "resetAccount t s =
     s\<lparr>balance := Fin 1000, orders := [],
       feed := publish \<lparr>ftype = SystemEv, ftext = Literal ''Reset demo state'',
                        ftime = t\<rparr> (feed s)\<rparr>"

definition runIndicator :: "string \<Rightarrow> state \<Rightarrow> state" where
  "runIndicator t s =
     s\<lparr>feed := publish \<lparr>ftype = SystemEv, ftext = Literal ''Indicator triggered (mock)'',
                        ftime = t\<rparr> (feed s)\<rparr>"

subsection \<open>Runs\<close>

text \<open>
  One value per thing that can happen to the component: the mount effect, the two timers
  and the buttons. A run applies a list of them from left to right.
\<close>

datatype action =
    Mount "nat \<Rightarrow> jsnum" "nat \<Rightarrow> string"
  | Tick rat string
  | Sweep "nat \<Rightarrow> draw"
  | PlaceOrder string string side jsnum
  | ToggleConnect string
  | SetToken string
  | Deposit string
  | Reset string
  | RunIndicator string

fun step :: "action \<Rightarrow> state \<Rightarrow> state" where
  "step (Mount raw tm) s = mount raw tm s"
| "step (Tick r t) s = tick r t s"
| "step (Sweep env) s = sweep env s"
| "step (PlaceOrder newid t sd sz) s = placeOrder newid t sd sz s"
| "step (ToggleConnect t) s = toggleConnect t s"
| "step (SetToken token) s = setToken token s"
| "step (Deposit t) s = deposit t s"
| "step (Reset t) s = resetAccount t s"
| "step (RunIndicator t) s = runIndicator t s"

definition run :: "action list \<Rightarrow> state \<Rightarrow> state" where
  "run acts s = fold step acts s"

section \<open>Notions used in the statements\<close>

text \<open>
  An order is well formed when \<^verbatim>\<open>pnl\<close> and \<^verbatim>\<open>filledAt\<close> are present exactly on a
  filled order.
\<close>

definition order_wf :: "order \<Rightarrow> bool" where
  "order_wf od =
     ((pnl od \<noteq> None) = (status od = Filled) \<and> (filledAt od \<noteq> None) = (status od = Filled))"

text \<open>The capacities of the three bounded lists.\<close>

definition bounded :: "state \<Rightarrow> bool" where
  "bounded s = (length (orders s) \<le> 50 \<and> length (feed s) \<le> 50 \<and> length (candles s) \<le> 200)"

text \<open>
  Actions that neither insert into nor clear the order list, and actions other than the
  two manual adjustments of the balance (deposit and reset).
\<close>

fun keeps_book :: "action \<Rightarrow> bool" where
  "keeps_book (PlaceOrder newid t sd sz) = False"
| "keeps_book (Reset t) = False"
| "keeps_book a = True"

fun no_adjustment :: "action \<Rightarrow> bool" where
  "no_adjustment (Deposit t) = False"
| "no_adjustment (Reset t) = False"
| "no_adjustment a = True"

text \<open>
  The \<^verbatim>\<open>pnl\<close> values that a sweep records, read off the order list before and after
  it in list order: the values on the orders that were pending and are filled. \<open>recorded\<close>
  collects them along a run.
\<close>

definition fills_of :: "order list \<Rightarrow> order list \<Rightarrow> jsnum list" where
  "fills_of olds news =
     concat (map2 (\<lambda>a b. if status a = Pending \<and> status b = Filled
                          then (case pnl b of None \<Rightarrow> [] | Some v \<Rightarrow> [v]) else [])
               olds news)"

fun recorded_by :: "action \<Rightarrow> state \<Rightarrow> jsnum list" where
  "recorded_by (Sweep env) s = fills_of (orders s) (orders (sweep env s))"
| "recorded_by a s = []"

fun recorded :: "action list \<Rightarrow> state \<Rightarrow> jsnum list" where
  "recorded [] s = []"
| "recorded (a # acts) s = recorded_by a s @ recorded acts (step a s)"

definition is_pending :: "order \<Rightarrow> bool" where
  "is_pending od = (status od = Pending)"

text \<open>
  What one run of the settlement callback may do to an order: nothing, or fill a pending
  order with the profit at price \<open>p\<close> and some fill time, every other field kept.
\<close>

definition resolved :: "jsnum \<Rightarrow> order \<Rightarrow> order \<Rightarrow> bool" where
  "resolved p a b =
     (b = a \<or>
      (status a = Pending \<and> filledAt b \<noteq> None \<and>
       b = a\<lparr>status := Filled, filledAt := filledAt b, pnl := Some (profit_of p a)\<rparr>))"

section \<open>Sample inputs\<close>

text \<open>
  A book at price 1.09005 with a pending buy entered at 1.09, an order filled earlier and
  a pending sell entered at 1.10123; a sweep environment whose every draw is 0.75, so that
  each pending order it meets is filled; and a warm-up history whose raw values are all the
  double nearest to 1.09. Only the last one, at \<open>i = 79\<close>, reaches the price, and there 1.09
  lies in the range of \<^verbatim>\<open>1.08 + Math.sin(7.9)*0.01 + Math.random()*0.002\<close>.
\<close>

definition demo_buy :: order where
  "demo_buy =
     \<lparr>oid = ''k3x9q2a'', side = Buy, osize = Fin 1, oprice = to_js (109 / 100),
      status = Pending, placedAt = ''10:00:00'', filledAt = None, pnl = None\<rparr>"

definition demo_filled :: order where
  "demo_filled =
     \<lparr>oid = ''b71mzp0'', side = Buy, osize = Fin 1, oprice = to_js (1099 / 1000),
      status = Filled, placedAt = ''09:59:30'', filledAt = Some ''09:59:40'',
      pnl = Some (to_js (5 / 100))\<rparr>"

definition demo_sell :: order where
  "demo_sell =
     \<lparr>oid = ''w0c4t8e'', side = Sell, osize = Fin 3, oprice = to_js (110123 / 100000),
      status = Pending, placedAt = ''09:59:00'', filledAt = None, pnl = None\<rparr>"

definition demo_state :: state where
  "demo_state =
     init_state\<lparr>price := to_js (109005 / 100000), orders := [demo_buy, demo_filled, demo_sell]\<rparr>"

definition demo_env :: "nat \<Rightarrow> draw" where
  "demo_env k = \<lparr>rnd = 3 / 4, evTime = ''10:00:04'', fillTime = ''10:00:04''\<rparr>"

definition demo_raw :: "nat \<Rightarrow> jsnum" where
  "demo_raw i = to_js (109 / 100)"

definition demo_tm :: "nat \<Rightarrow> string" where
  "demo_tm i = ''09:58:00''"

section \<open>Properties of the rounding\<close>

text \<open>
  \<open>fl64\<close> moves a number by at most half a unit in the last place: by at most
  \<open>|x| / 2^53\<close> for a number of the normal range, and by at most \<open>2^-1075\<close> below it. A
  result of moderate size does not overflow.
\<close>

lemma pow2_powi: "pow2 k = 2 powi k"
  by (simp add: pow2_def power_int_def inverse_eq_divide power_divide)

lemma pow2_pos: "0 < pow2 k"
  by (simp add: pow2_powi)

lemma pow2_sub52: "pow2 (k - 52) = pow2 k / 2 ^ 52"
  by (simp add: pow2_powi power_int_diff)

lemma pow2_ilog2_le:
  assumes "0 < x"
  shows "pow2 (ilog2 x) \<le> x"
proof (cases "1 \<le> x")
  case True
  then have fl: "0 < \<lfloor>x\<rfloor>" by linarith
  from bitlen_bounds [OF fl] have b: "2 ^ nat (bitlen \<lfloor>x\<rfloor> - 1) \<le> \<lfloor>x\<rfloor>" by blast
  have nn: "0 \<le> bitlen \<lfloor>x\<rfloor> - 1"
    using fl by (simp add: bitlen_alt_def)
  have "(2::rat) ^ nat (bitlen \<lfloor>x\<rfloor> - 1) = of_int (2 ^ nat (bitlen \<lfloor>x\<rfloor> - 1))" by simp
  also have "\<dots> \<le> of_int \<lfloor>x\<rfloor>" using b by (simp only: of_int_le_iff)
  also have "\<dots> \<le> x" by simp
  finally show ?thesis using True nn by (simp add: ilog2_def pow2_def)
next
  case False
  define n where "n = \<lceil>1 / x\<rceil> - 1"
  define k where "k = bitlen n"
  have x1: "1 < 1 / x" using False assms by simp
  then have npos: "0 < n" unfolding n_def by linarith
  from bitlen_bounds [OF npos] have "n < 2 ^ nat k" unfolding k_def by blast
  then have "n + 1 \<le> 2 ^ nat k" by simp
  then have "(of_int (n + 1) :: rat) \<le> of_int (2 ^ nat k)" by (simp only: of_int_le_iff)
  then have "(of_int \<lceil>1 / x\<rceil> :: rat) \<le> 2 ^ nat k" by (simp add: n_def)
  moreover have "1 / x \<le> of_int \<lceil>1 / x\<rceil>" by simp
  ultimately have le: "1 / x \<le> 2 ^ nat k" by linarith
  have kpos: "0 < k" using npos unfolding k_def by (simp add: bitlen_alt_def)
  have p: "(0::rat) < 2 ^ nat k" by simp
  from le assms p have "1 / 2 ^ nat k \<le> x"
    by (simp add: field_simps)
  moreover have "ilog2 x = - k" using False by (simp add: ilog2_def n_def k_def)
  ultimately show ?thesis using kpos by (simp add: pow2_def)
qed

lemma rne_error: "\<bar>of_int (rne m) - m\<bar> \<le> 1 / 2"
proof -
  have "of_int \<lfloor>m\<rfloor> \<le> m" "m < of_int \<lfloor>m\<rfloor> + 1" by linarith+
  then show ?thesis
    by (auto simp add: rne_def Let_def)
qed

lemma fl64_ulp:
  assumes "x \<noteq> 0"
  shows "\<bar>fl64 x - x\<bar> \<le> pow2 (max (ilog2 \<bar>x\<bar>) (- 1022) - 52) / 2"
proof -
  define ulp where "ulp = pow2 (max (ilog2 \<bar>x\<bar>) (- 1022) - 52)"
  have pos: "0 < ulp" unfolding ulp_def by (rule pow2_pos)
  have "fl64 x - x = (of_int (rne (x / ulp)) - x / ulp) * ulp"
    using assms pos by (simp add: fl64_def ulp_def [symmetric] Let_def field_simps)
  then have "\<bar>fl64 x - x\<bar> = \<bar>of_int (rne (x / ulp)) - x / ulp\<bar> * ulp"
    using pos by (simp add: abs_mult)
  also have "\<dots> \<le> (1 / 2) * ulp"
    using rne_error [of "x / ulp"] pos by (intro mult_right_mono) simp_all
  finally show ?thesis by (simp add: ulp_def)
qed

lemma fl64_zero [simp]: "fl64 0 = 0"
  by (simp add: fl64_def)

lemma pow2_subnormal: "pow2 (- 1074) / 2 \<le> 1 / 2 ^ 53" "pow2 (- 1074) \<le> (1 / 100) / 2 ^ 52"
  by (simp_all add: pow2_def)

lemma fl64_half_ulp:
  assumes "x \<noteq> 0"
  shows "\<bar>fl64 x - x\<bar> \<le> \<bar>x\<bar> / 2 ^ 53 \<or> \<bar>fl64 x - x\<bar> \<le> pow2 (- 1074) / 2"
proof -
  from assms have ax: "0 < \<bar>x\<bar>" by simp
  note u = fl64_ulp [OF assms]
  show ?thesis
  proof (cases "- 1022 \<le> ilog2 \<bar>x\<bar>")
    case True
    then have m: "max (ilog2 \<bar>x\<bar>) (- 1022) = ilog2 \<bar>x\<bar>" by simp
    have "pow2 (ilog2 \<bar>x\<bar> - 52) = pow2 (ilog2 \<bar>x\<bar>) / 2 ^ 52" by (rule pow2_sub52)
    also have "\<dots> \<le> \<bar>x\<bar> / 2 ^ 52"
      using pow2_ilog2_le [OF ax] by (intro divide_right_mono) simp_all
    finally have "pow2 (ilog2 \<bar>x\<bar> - 52) / 2 \<le> \<bar>x\<bar> / 2 ^ 53" by simp
    with u show ?thesis unfolding m by linarith
  next
    case False
    then have m: "max (ilog2 \<bar>x\<bar>) (- 1022) - 52 = - 1074" by simp
    from u show ?thesis unfolding m by blast
  qed
qed

lemma fl64_error: "\<bar>fl64 x - x\<bar> \<le> (\<bar>x\<bar> + 1) / 2 ^ 53"
proof (cases "x = 0")
  case True
  then show ?thesis by simp
next
  case False
  have "\<bar>x\<bar> / 2 ^ 53 \<le> (\<bar>x\<bar> + 1) / 2 ^ 53" by (intro divide_right_mono) simp_all
  moreover have "pow2 (- 1074) / 2 \<le> (\<bar>x\<bar> + 1) / 2 ^ 53"
  proof -
    have "(1::rat) / 2 ^ 53 \<le> (\<bar>x\<bar> + 1) / 2 ^ 53" by (intro divide_right_mono) simp_all
    with pow2_subnormal(1) show ?thesis by linarith
  qed
  ultimately show ?thesis using fl64_half_ulp [OF False] by linarith
qed

lemma fl64_error_rel:
  assumes "1 / 100 \<le> \<bar>x\<bar>"
  shows "\<bar>fl64 x - x\<bar> \<le> \<bar>x\<bar> / 2 ^ 53"
proof -
  from assms have nz: "x \<noteq> 0" by auto
  have "pow2 (- 1074) \<le> \<bar>x\<bar> / 2 ^ 52"
  proof -
    have "(1 / 100) / 2 ^ 52 \<le> \<bar>x\<bar> / 2 ^ 52" using assms by (intro divide_right_mono) simp_all
    with pow2_subnormal(2) show ?thesis by linarith
  qed
  then have "pow2 (- 1074) / 2 \<le> \<bar>x\<bar> / 2 ^ 53" by simp
  with fl64_half_ulp [OF nz] show ?thesis by linarith
qed

lemma pow2_mono: "a \<le> b \<Longrightarrow> pow2 a \<le> pow2 b"
  by (simp add: pow2_powi power_int_increasing)

lemma to_js_fin:
  assumes "\<bar>x\<bar> \<le> 10 ^ 30"
  shows "to_js x = Fin (fl64 x)"
proof (cases "fl64 x = 0")
  case True
  then show ?thesis by (simp add: to_js_def)
next
  case False
  then have pos: "0 < \<bar>fl64 x\<bar>" by simp
  have "\<bar>fl64 x\<bar> \<le> \<bar>x\<bar> + \<bar>fl64 x - x\<bar>" by linarith
  also have "\<dots> \<le> \<bar>x\<bar> + (\<bar>x\<bar> + 1) / 2 ^ 53" using fl64_error [of x] by simp
  also have "\<dots> \<le> 10 ^ 30 + (10 ^ 30 + 1) / 2 ^ 53"
    using assms by (intro add_mono divide_right_mono) simp_all
  also have "\<dots> < 2 ^ 101" by simp
  finally have small: "\<bar>fl64 x\<bar> < 2 ^ 101" .
  have "\<not> 1024 \<le> ilog2 \<bar>fl64 x\<bar>"
  proof
    assume "1024 \<le> ilog2 \<bar>fl64 x\<bar>"
    then have "pow2 101 \<le> pow2 (ilog2 \<bar>fl64 x\<bar>)" by (intro pow2_mono) simp
    also have "\<dots> \<le> \<bar>fl64 x\<bar>" using pos by (rule pow2_ilog2_le)
    finally show False using small by (simp add: pow2_def)
  qed
  with False show ?thesis by (simp add: to_js_def Let_def)
qed

section \<open>Properties of fixed decimals\<close>

text \<open>
  \<open>toFixed f\<close> lands on numbers with at most \<open>f\<close> decimals, leaves such numbers as they
  are, is monotone, and moves any number by at most half a unit of the last decimal; so a
  number closer than that to a number with \<open>f\<close> decimals is sent to it.
\<close>

text \<open>Evaluating the floor of a rational numeral.\<close>

lemma floor_rat_numeral [simp]:
  "\<lfloor>numeral a / numeral b :: rat\<rfloor> = numeral a div numeral b"
  using floor_divide_of_int_eq [of "numeral a" "numeral b", where ?'a = rat] by simp

lemma floor_rat_neg_numeral [simp]:
  "\<lfloor>- (numeral a / numeral b) :: rat\<rfloor> = - numeral a div numeral b"
  using floor_divide_of_int_eq [of "- numeral a" "numeral b", where ?'a = rat] by simp

lemma decimals_iff: "decimals f x \<longleftrightarrow> (\<exists>n::int. x * 10 ^ f = of_int n)"
  unfolding decimals_def
  by (metis floor_of_int)

lemma decimals_toFixed: "decimals f (toFixed f x)"
proof (cases "x < 0")
  case True
  then have "toFixed f x * 10 ^ f = of_int (- \<lfloor>(- x) * 10 ^ f + 1 / 2\<rfloor>)"
    by (simp add: toFixed_def)
  then show ?thesis unfolding decimals_iff by blast
next
  case False
  then have "toFixed f x * 10 ^ f = of_int \<lfloor>x * 10 ^ f + 1 / 2\<rfloor>"
    by (simp add: toFixed_def)
  then show ?thesis unfolding decimals_iff by blast
qed


lemma round_half: "\<bar>of_int \<lfloor>y + 1 / 2\<rfloor> - y\<bar> \<le> 1 / 2" for y :: rat
  by linarith

lemma toFixed_error: "\<bar>toFixed f x - x\<bar> \<le> 1 / (2 * 10 ^ f)"
proof -
  define c :: rat where "c = 10 ^ f"
  have pos: "0 < c" by (simp add: c_def)
  have scale: "\<bar>n / c - y / c\<bar> \<le> 1 / (2 * c)" if "\<bar>n - y\<bar> \<le> 1 / 2" for n y :: rat
  proof -
    have "\<bar>n / c - y / c\<bar> = \<bar>n - y\<bar> / c"
      using pos by (simp add: diff_divide_distrib [symmetric])
    also have "\<dots> \<le> (1 / 2) / c" using that pos by (intro divide_right_mono) simp_all
    finally show ?thesis by simp
  qed
  show ?thesis
  proof (cases "x < 0")
    case True
    have "toFixed f x - x = - (of_int \<lfloor>(- x) * c + 1 / 2\<rfloor> / c - ((- x) * c) / c)"
      using True pos unfolding toFixed_def c_def by simp
    then have "\<bar>toFixed f x - x\<bar> = \<bar>of_int \<lfloor>(- x) * c + 1 / 2\<rfloor> / c - ((- x) * c) / c\<bar>"
      by (simp only: abs_minus_cancel)
    also have "\<dots> \<le> 1 / (2 * c)" by (rule scale [OF round_half])
    finally show ?thesis by (simp add: c_def)
  next
    case False
    have "toFixed f x - x = of_int \<lfloor>x * c + 1 / 2\<rfloor> / c - (x * c) / c"
      using False pos unfolding toFixed_def c_def by simp
    also have "\<bar>\<dots>\<bar> \<le> 1 / (2 * c)" by (rule scale [OF round_half])
    finally show ?thesis by (simp add: c_def)
  qed
qed

lemma decimals_add: "decimals f a \<Longrightarrow> decimals f b \<Longrightarrow> decimals f (a + b)"
  unfolding decimals_iff
  by (metis distrib_right of_int_add)


lemma decimals_minus: "decimals f a \<Longrightarrow> decimals f (- a)"
  unfolding decimals_iff by (metis mult_minus_left of_int_minus)


lemma decimals_diff: "decimals f a \<Longrightarrow> decimals f b \<Longrightarrow> decimals f (a - b)"
  using decimals_add [of f a "- b"] decimals_minus [of f b] by simp

lemma decimals_close:
  assumes a: "decimals f a" and b: "decimals f b" and c: "\<bar>a - b\<bar> < 1 / 10 ^ f"
  shows "a = b"
proof -
  from decimals_diff [OF a b] obtain n :: int where n: "(a - b) * 10 ^ f = of_int n"
    unfolding decimals_iff by blast
  have pos: "(0::rat) < 10 ^ f" by simp
  have "\<bar>(a - b) * 10 ^ f\<bar> = \<bar>a - b\<bar> * 10 ^ f" by (simp add: abs_mult)
  also have "\<dots> < (1 / 10 ^ f) * 10 ^ f" using c pos by (intro mult_strict_right_mono)
  finally have "\<bar>(of_int n :: rat)\<bar> < 1" using n by simp
  then have "\<bar>n\<bar> < 1" by (metis of_int_abs of_int_less_1_iff)
  then have "n = 0" by simp
  with n pos show ?thesis by simp
qed

lemma toFixed_grid:
  assumes g: "decimals f g" and c: "\<bar>y - g\<bar> < 1 / (2 * 10 ^ f)"
  shows "toFixed f y = g"
proof -
  have "\<bar>toFixed f y - g\<bar> \<le> \<bar>toFixed f y - y\<bar> + \<bar>y - g\<bar>" by linarith
  also have "\<dots> < 1 / (2 * 10 ^ f) + 1 / (2 * 10 ^ f)"
    using toFixed_error [of f y] c by linarith
  also have "\<dots> = 1 / 10 ^ f" by simp
  finally show ?thesis using decimals_toFixed g by (intro decimals_close)
qed

section \<open>One tick in double precision\<close>

text \<open>
  The perturbation of a tick is at most 0.00075 up to the rounding of its two operations,
  and the sum with a five-decimal price of moderate size is sent by \<^verbatim>\<open>toFixed(5)\<close> to a
  five-decimal number within 0.00075 of that price.
\<close>

lemma fixed_decimal:
  assumes "fixed f p"
  shows "decimals f (toFixed f p)" "p = fl64 (toFixed f p)"
  using assms by (simp_all add: fixed_def decimals_toFixed)




lemma run_Nil [simp]: "run [] s = s"
  by (simp add: run_def)

lemma run_Cons [simp]: "run (a # acts) s = run acts (step a s)"
  by (simp add: run_def)







section \<open>Runs and bounded lists\<close>

text \<open>
  The facts about the sweep are proved for the map callback first, then carried through
  the map by induction on the order list, and through a run by induction on the actions.
\<close>

lemma publish_eq: "publish ev f = ev # take 49 f"
  by (simp add: publish_def take_Cons')

lemma settle_order_cases:
  "settle_order p d od s = (od, s) \<or>
   (status od = Pending \<and> 1 / 2 < rnd d \<and>
    settle_order p d od s =
      (od\<lparr>status := Filled, filledAt := Some (fillTime d), pnl := Some (profit_of p od)\<rparr>,
       s\<lparr>balance := credit (balance s) (profit_of p od),
         feed := publish \<lparr>ftype = TradeEv, ftext = FilledText (oid od) (profit_of p od),
                          ftime = evTime d\<rparr> (feed s)\<rparr>))"
  by (simp add: settle_order_def Let_def)

lemma settle_order_filled: "status od = Filled \<Longrightarrow> settle_order p d od s = (od, s)"
  by (simp add: settle_order_def)


lemma settle_all_Cons:
  "settle_all p env k (od # os) s =
     (fst (settle_order p (env k) od s) #
        fst (settle_all p env (if status od = Pending then Suc k else k) os
               (snd (settle_order p (env k) od s))),
      snd (settle_all p env (if status od = Pending then Suc k else k) os
               (snd (settle_order p (env k) od s))))"
  by (simp add: case_prod_beta)

lemma settle_all_length: "length (fst (settle_all p env k os s)) = length os"
  by (induction os arbitrary: k s) (simp_all add: settle_all_Cons del: settle_all.simps(2))

lemma settle_order_resolved: "resolved p od (fst (settle_order p d od s))"
  using settle_order_cases [of p d od s] by (auto simp: resolved_def)

lemma settle_all_resolved: "list_all2 (resolved p) os (fst (settle_all p env k os s))"
  by (induction os arbitrary: k s)
    (simp_all add: settle_all_Cons settle_order_resolved del: settle_all.simps(2))

lemma sweep_orders: "orders (sweep env s) = fst (settle_all (price s) env 0 (orders s) s)"
  by (cases "orders s") (simp_all add: sweep_def case_prod_beta del: settle_all.simps(2))

lemma sweep_resolved: "list_all2 (resolved (price s)) (orders s) (orders (sweep env s))"
  by (simp add: sweep_orders settle_all_resolved)

lemma settle_order_frame:
  "apiToken (snd (settle_order p d od s)) = apiToken s \<and>
   connected (snd (settle_order p d od s)) = connected s \<and>
   price (snd (settle_order p d od s)) = price s \<and>
   candles (snd (settle_order p d od s)) = candles s \<and>
   orders (snd (settle_order p d od s)) = orders s"
  by (simp add: settle_order_def Let_def)

lemma settle_all_frame:
  "apiToken (snd (settle_all p env k os s)) = apiToken s \<and>
   connected (snd (settle_all p env k os s)) = connected s \<and>
   price (snd (settle_all p env k os s)) = price s \<and>
   candles (snd (settle_all p env k os s)) = candles s"
  by (induction os arbitrary: k s)
    (simp_all add: settle_all_Cons settle_order_frame del: settle_all.simps(2))

lemma sweep_frame:
  "apiToken (sweep env s) = apiToken s \<and> connected (sweep env s) = connected s \<and>
   price (sweep env s) = price s \<and> candles (sweep env s) = candles s"
  by (simp add: sweep_def case_prod_beta settle_all_frame)

lemma settle_order_feed: "length (feed s) \<le> 50 \<Longrightarrow> length (feed (snd (settle_order p d od s))) \<le> 50"
  by (simp add: settle_order_def Let_def publish_def)

lemma settle_all_feed: "length (feed s) \<le> 50 \<Longrightarrow> length (feed (snd (settle_all p env k os s))) \<le> 50"
  by (induction os arbitrary: k s)
    (simp_all add: settle_all_Cons settle_order_feed del: settle_all.simps(2))

lemma sweep_bounded: "bounded s \<Longrightarrow> bounded (sweep env s)"
  by (simp add: bounded_def sweep_frame sweep_orders settle_all_length)
    (simp add: sweep_def case_prod_beta settle_all_feed)

lemma step_bounded: "bounded s \<Longrightarrow> bounded (step a s)"
proof (cases a)
  case (Sweep env)
  assume "bounded s"
  then show ?thesis using Sweep by (simp add: sweep_bounded)
qed (simp_all add: bounded_def mount_def tick_def placeOrder_def toggleConnect_def
      setToken_def deposit_def resetAccount_def runIndicator_def Let_def publish_def
      slice_last_def)

lemma run_bounded: "bounded s \<Longrightarrow> bounded (run acts s)"
  by (induction acts arbitrary: s) (simp_all add: step_bounded)

lemma resolved_wf: "resolved p a b \<Longrightarrow> order_wf a \<Longrightarrow> order_wf b"
  by (auto simp: resolved_def order_wf_def)

lemma list_all2_wf:
  "list_all2 (resolved p) xs ys \<Longrightarrow> list_all order_wf xs \<Longrightarrow> list_all order_wf ys"
  by (induction rule: list_all2_induct) (auto intro: resolved_wf)

lemma sweep_wf: "list_all order_wf (orders s) \<Longrightarrow> list_all order_wf (orders (sweep env s))"
  using sweep_resolved by (rule list_all2_wf)

lemma list_all_take: "list_all P xs \<Longrightarrow> list_all P (take n xs)"
  by (auto simp: list_all_iff dest: in_set_takeD)

lemma placeOrder_wf:
  "list_all order_wf (orders s) \<Longrightarrow> list_all order_wf (orders (placeOrder newid t sd sz s))"
  by (simp add: placeOrder_def Let_def take_Cons' list_all_take order_wf_def)

lemma step_wf: "list_all order_wf (orders s) \<Longrightarrow> list_all order_wf (orders (step a s))"
proof (cases a)
  case (Sweep env)
  assume "list_all order_wf (orders s)"
  then show ?thesis using Sweep by (simp add: sweep_wf)
next
  case (PlaceOrder newid t sd sz)
  assume "list_all order_wf (orders s)"
  then show ?thesis using PlaceOrder by (simp add: placeOrder_wf)
qed (simp_all add: mount_def tick_def toggleConnect_def
      setToken_def deposit_def resetAccount_def runIndicator_def Let_def)

lemma run_wf: "list_all order_wf (orders s) \<Longrightarrow> list_all order_wf (orders (run acts s))"
  by (induction acts arbitrary: s) (simp_all add: step_wf)

lemma resolved_filled: "resolved p a b \<Longrightarrow> status a = Filled \<Longrightarrow> b = a"
  by (auto simp: resolved_def)

lemma sweep_length: "length (orders (sweep env s)) = length (orders s)"
  by (simp add: sweep_orders settle_all_length)

lemma sweep_filled_nth:
  "i < length (orders s) \<Longrightarrow> status (orders s ! i) = Filled \<Longrightarrow>
   orders (sweep env s) ! i = orders s ! i"
  using list_all2_nthD [OF sweep_resolved, of i s env] by (auto dest: resolved_filled)

lemma step_keeps_book:
  "keeps_book a \<Longrightarrow> length (orders (step a s)) = length (orders s) \<and>
     (\<forall>i < length (orders s). status (orders s ! i) = Filled \<longrightarrow>
        orders (step a s) ! i = orders s ! i)"
  by (cases a) (simp_all add: sweep_length sweep_filled_nth mount_def tick_def toggleConnect_def
      setToken_def deposit_def runIndicator_def Let_def)

lemma run_keeps_book:
  "list_all keeps_book acts \<Longrightarrow> length (orders (run acts s)) = length (orders s) \<and>
     (\<forall>i < length (orders s). status (orders s ! i) = Filled \<longrightarrow>
        orders (run acts s) ! i = orders s ! i)"
proof (induction acts arbitrary: s)
  case Nil
  then show ?case by simp
next
  case (Cons a acts)
  from Cons.prems have a: "keeps_book a" and rest: "list_all keeps_book acts" by simp_all
  note one = step_keeps_book [OF a, of s]
  note more = Cons.IH [OF rest, of "step a s"]
  show ?case using one more by simp
qed

lemma settle_all_filter:
  "snd (settle_all p env k (filter is_pending os) s) = snd (settle_all p env k os s)"
proof (induction os arbitrary: k s)
  case Nil
  then show ?case by simp
next
  case (Cons od os)
  show ?case
  proof (cases "status od")
    case Pending
    then show ?thesis using Cons.IH
      by (simp add: settle_all_Cons is_pending_def del: settle_all.simps(2))
  next
    case Filled
    then show ?thesis using Cons.IH
      by (simp add: settle_all_Cons is_pending_def settle_order_filled del: settle_all.simps(2))
  qed
qed

lemma sweep_balance: "balance (sweep env s) = balance (snd (settle_all (price s) env 0 (orders s) s))"
  by (cases "orders s") (simp_all add: sweep_def case_prod_beta del: settle_all.simps(2))

lemma sweep_feed: "feed (sweep env s) = feed (snd (settle_all (price s) env 0 (orders s) s))"
  by (cases "orders s") (simp_all add: sweep_def case_prod_beta del: settle_all.simps(2))


lemma settle_order_orders_upd:
  "snd (settle_order p d od (s\<lparr>orders := xs\<rparr>)) = (snd (settle_order p d od s))\<lparr>orders := xs\<rparr>"
  by (simp add: settle_order_def Let_def)

lemma settle_all_orders_upd:
  "snd (settle_all p env k os (s\<lparr>orders := xs\<rparr>)) = (snd (settle_all p env k os s))\<lparr>orders := xs\<rparr>"
  by (induction os arbitrary: k s)
    (simp_all add: settle_all_Cons settle_order_orders_upd del: settle_all.simps(2))

lemma sweep_pending_only:
  "balance (sweep env (s\<lparr>orders := filter is_pending (orders s)\<rparr>)) = balance (sweep env s) \<and>
   feed (sweep env (s\<lparr>orders := filter is_pending (orders s)\<rparr>)) = feed (sweep env s)"
  by (simp add: sweep_balance sweep_feed settle_all_orders_upd settle_all_filter)

lemma list_all2_resolved_frame:
  "list_all2 (resolved p) xs ys \<Longrightarrow>
   map oid ys = map oid xs \<and> map side ys = map side xs \<and> map osize ys = map osize xs \<and>
   map oprice ys = map oprice xs \<and> map placedAt ys = map placedAt xs"
proof (induction rule: list_all2_induct)
  case Nil
  then show ?case by simp
next
  case (Cons x xs y ys)
  from Cons.hyps(1) have "oid y = oid x \<and> side y = side x \<and> osize y = osize x \<and>
      oprice y = oprice x \<and> placedAt y = placedAt x"
    unfolding resolved_def
    by (elim disjE conjE) (simp, erule ssubst, simp)
  then show ?case using Cons.IH by simp
qed

section \<open>The balance in double precision\<close>

text \<open>
  While the amounts are moderate, adding the double of a two-decimal profit to the double
  of a two-decimal balance and applying \<^verbatim>\<open>toFixed(2)\<close> gives the double of the exact
  two-decimal sum. The balance of a sweep is the fold of this step over the profits it
  records.
\<close>

lemma grid_nonzero:
  assumes "decimals f G" and "G \<noteq> 0"
  shows "1 / 10 ^ f \<le> \<bar>G\<bar>"
proof (rule ccontr)
  assume "\<not> 1 / 10 ^ f \<le> \<bar>G\<bar>"
  then have "\<bar>G - 0\<bar> < 1 / 10 ^ f" by simp
  moreover have "decimals f 0" by (simp add: decimals_def)
  ultimately have "G = 0" using assms(1) by (intro decimals_close)
  with assms(2) show False by simp
qed

lemma fixed2_rel:
  assumes "fixed 2 w"
  shows "\<bar>toFixed 2 w - w\<bar> \<le> 2 * \<bar>w\<bar> / 2 ^ 53" and "\<bar>toFixed 2 w\<bar> \<le> 2 * \<bar>w\<bar>"
proof -
  define G where "G = toFixed 2 w"
  have G: "decimals 2 G" and w: "w = fl64 G"
    using fixed_decimal [OF assms] by (simp_all add: G_def)
  have "\<bar>G - w\<bar> \<le> 2 * \<bar>w\<bar> / 2 ^ 53 \<and> \<bar>G\<bar> \<le> 2 * \<bar>w\<bar>"
  proof (cases "G = 0")
    case True
    then show ?thesis by (simp add: w)
  next
    case False
    from grid_nonzero [OF G False] have "1 / 100 \<le> \<bar>G\<bar>" by simp
    then have e: "\<bar>fl64 G - G\<bar> \<le> \<bar>G\<bar> / 2 ^ 53" by (rule fl64_error_rel)
    define g where "g = \<bar>G\<bar>"
    define a where "a = \<bar>w\<bar>"
    define e' where "e' = \<bar>G - w\<bar>"
    have 1: "e' \<le> g / 2 ^ 53" using e by (simp add: e'_def g_def w abs_minus_commute)
    have 2: "g \<le> a + e'" unfolding g_def a_def e'_def by linarith
    have 3: "0 \<le> g" by (simp add: g_def)
    from 1 2 3 have "g \<le> 2 * a" by simp
    moreover from 1 2 3 have "e' \<le> 2 * a / 2 ^ 53" by simp
    ultimately show ?thesis by (simp add: g_def a_def e'_def)
  qed
  then show "\<bar>toFixed 2 w - w\<bar> \<le> 2 * \<bar>w\<bar> / 2 ^ 53" and "\<bar>toFixed 2 w\<bar> \<le> 2 * \<bar>w\<bar>"
    by (simp_all add: G_def)
qed

lemma fl64_near:
  assumes "\<bar>x\<bar> \<le> 3 * 10 ^ 10"
  shows "\<bar>fl64 x - x\<bar> \<le> 1 / 10 ^ 5"
proof -
  have "\<bar>fl64 x - x\<bar> \<le> (\<bar>x\<bar> + 1) / 2 ^ 53" by (rule fl64_error)
  also have "\<dots> \<le> (3 * 10 ^ 10 + 1) / 2 ^ 53" using assms by (intro divide_right_mono) simp_all
  also have "\<dots> \<le> 1 / 10 ^ 5" by simp
  finally show ?thesis .
qed

lemma credit_tracked:
  assumes P: "decimals 2 P" and w: "fixed 2 w" and b: "\<bar>P\<bar> + 2 * \<bar>w\<bar> \<le> 10 ^ 10"
  shows "credit (Fin (fl64 P)) (Fin w) = Fin (fl64 (P + toFixed 2 w))"
proof -
  define G where "G = toFixed 2 w"
  define s1 where "s1 = fl64 (fl64 P + w)"
  have G: "decimals 2 G" unfolding G_def by (rule decimals_toFixed)
  have Gb: "\<bar>G\<bar> \<le> 2 * \<bar>w\<bar>" and Ge: "\<bar>G - w\<bar> \<le> 2 * \<bar>w\<bar> / 2 ^ 53"
    using fixed2_rel [OF w] by (simp_all add: G_def)
  have Pb: "\<bar>P\<bar> \<le> 10 ^ 10" and wb: "\<bar>w\<bar> \<le> 10 ^ 10" using b by simp_all
  have eP: "\<bar>fl64 P - P\<bar> \<le> 1 / 10 ^ 5" using Pb by (intro fl64_near) simp
  have eG: "\<bar>G - w\<bar> \<le> 1 / 10 ^ 5"
  proof -
    have "2 * \<bar>w\<bar> / 2 ^ 53 \<le> 2 * 10 ^ 10 / 2 ^ 53" using wb by (intro divide_right_mono) simp_all
    also have "\<dots> \<le> 1 / 10 ^ 5" by simp
    finally show ?thesis using Ge by linarith
  qed
  have sb: "\<bar>fl64 P + w\<bar> \<le> 3 * 10 ^ 10"
    using eP Pb wb unfolding abs_le_iff by (simp?; linarith?)
  then have "\<bar>fl64 P + w\<bar> \<le> 10 ^ 30" by simp
  then have a: "jadd (Fin (fl64 P)) (Fin w) = Fin s1" by (simp add: s1_def to_js_fin)
  have es: "\<bar>s1 - (fl64 P + w)\<bar> \<le> 1 / 10 ^ 5" unfolding s1_def using sb by (rule fl64_near)
  have near: "\<bar>s1 - (P + G)\<bar> < 1 / (2 * 10 ^ 2)"
    using es eP eG unfolding abs_le_iff abs_less_iff by (simp?; linarith?)
  have "toFixed 2 s1 = P + G" using decimals_add [OF P G] near by (rule toFixed_grid)
  moreover have "\<bar>s1\<bar> < 10 ^ 21"
    using es sb unfolding abs_le_iff abs_less_iff by (simp?; linarith?)
  moreover have "\<bar>P + G\<bar> \<le> 10 ^ 30"
    using Pb Gb wb unfolding abs_le_iff by (simp?; linarith?)
  ultimately have "toFixed_num 2 (Fin s1) = Fin (fl64 (P + G))"
    by (simp add: to_js_fin)
  then have "toFixed_num 2 (jadd (Fin (fl64 P)) (Fin w)) = Fin (fl64 (P + G))"
    by (simp only: a)
  then show ?thesis by (simp only: credit_def G_def)
qed

lemma fold_tracked:
  "decimals 2 P \<Longrightarrow> list_all (fixed 2) ws \<Longrightarrow> \<bar>P\<bar> + 2 * sum_list (map abs ws) \<le> 10 ^ 10 \<Longrightarrow>
   foldl credit (Fin (fl64 P)) (map Fin ws) = Fin (fl64 (P + sum_list (map (toFixed 2) ws)))"
proof (induction ws arbitrary: P)
  case Nil
  then show ?case by simp
next
  case (Cons w ws)
  from Cons.prems(2) have w: "fixed 2 w" and rest: "list_all (fixed 2) ws" by simp_all
  have nn: "0 \<le> sum_list (map abs ws)" by (rule sum_list_nonneg) auto
  have b: "\<bar>P\<bar> + 2 * \<bar>w\<bar> \<le> 10 ^ 10" using Cons.prems(3) nn by simp
  have 1: "credit (Fin (fl64 P)) (Fin w) = Fin (fl64 (P + toFixed 2 w))"
    using Cons.prems(1) w b by (rule credit_tracked)
  have 2: "decimals 2 (P + toFixed 2 w)"
    using Cons.prems(1) decimals_toFixed by (rule decimals_add)
  have "\<bar>P + toFixed 2 w\<bar> \<le> \<bar>P\<bar> + 2 * \<bar>w\<bar>"
    using fixed2_rel(2) [OF w] by linarith
  then have 3: "\<bar>P + toFixed 2 w\<bar> + 2 * sum_list (map abs ws) \<le> 10 ^ 10"
    using Cons.prems(3) by simp
  show ?case
    using Cons.IH [OF 2 rest 3] by (simp add: 1 add.assoc)
qed

lemma sum_fixed_error:
  "list_all (fixed 2) ws \<Longrightarrow>
   \<bar>sum_list (map (toFixed 2) ws) - sum_list ws\<bar> \<le> 2 * sum_list (map abs ws) / 2 ^ 53 \<and>
   \<bar>sum_list (map (toFixed 2) ws)\<bar> \<le> 2 * sum_list (map abs ws)"
proof (induction ws)
  case Nil
  then show ?case by simp
next
  case (Cons w ws)
  from Cons.prems have w: "fixed 2 w" and rest: "list_all (fixed 2) ws" by simp_all
  note a = fixed2_rel [OF w]
  note ih = Cons.IH [OF rest]
  have "\<bar>toFixed 2 w + sum_list (map (toFixed 2) ws) - (w + sum_list ws)\<bar> \<le>
        \<bar>toFixed 2 w - w\<bar> + \<bar>sum_list (map (toFixed 2) ws) - sum_list ws\<bar>" by linarith
  also have "\<dots> \<le> 2 * \<bar>w\<bar> / 2 ^ 53 + 2 * sum_list (map abs ws) / 2 ^ 53"
    using a(1) ih by linarith
  finally have 1: "\<bar>toFixed 2 w + sum_list (map (toFixed 2) ws) - (w + sum_list ws)\<bar> \<le>
      2 * (\<bar>w\<bar> + sum_list (map abs ws)) / 2 ^ 53" by (simp add: field_simps)
  have "\<bar>toFixed 2 w + sum_list (map (toFixed 2) ws)\<bar> \<le>
        \<bar>toFixed 2 w\<bar> + \<bar>sum_list (map (toFixed 2) ws)\<bar>" by linarith
  also have "\<dots> \<le> 2 * \<bar>w\<bar> + 2 * sum_list (map abs ws)" using a(2) ih by linarith
  finally have 2: "\<bar>toFixed 2 w + sum_list (map (toFixed 2) ws)\<bar> \<le>
      2 * (\<bar>w\<bar> + sum_list (map abs ws))" by simp
  from 1 2 show ?case by simp
qed

lemma fl64_fixed2:
  assumes g: "decimals 2 g" and b: "\<bar>g\<bar> \<le> 3 * 10 ^ 10"
  shows "toFixed 2 (fl64 g) = g"
proof -
  have "\<bar>fl64 g - g\<bar> \<le> 1 / 10 ^ 5" using b by (rule fl64_near)
  also have "\<dots> < 1 / (2 * 10 ^ 2)" by simp
  finally show ?thesis using g by (intro toFixed_grid)
qed

lemma credit_first:
  assumes b: "\<bar>b0\<bar> + \<bar>w\<bar> \<le> 10 ^ 10"
  shows "credit (Fin b0) (Fin w) = Fin (fl64 (toFixed 2 (fl64 (b0 + w))))"
    and "\<bar>toFixed 2 (fl64 (b0 + w)) - (b0 + w)\<bar> \<le> 1 / 200 + 1 / 10 ^ 5"
proof -
  define s1 where "s1 = fl64 (b0 + w)"
  have sb: "\<bar>b0 + w\<bar> \<le> 3 * 10 ^ 10" using b by simp
  then have "\<bar>b0 + w\<bar> \<le> 10 ^ 30" by simp
  then have a: "jadd (Fin b0) (Fin w) = Fin s1" by (simp add: s1_def to_js_fin)
  have es: "\<bar>s1 - (b0 + w)\<bar> \<le> 1 / 10 ^ 5" unfolding s1_def using sb by (rule fl64_near)
  have s21: "\<bar>s1\<bar> < 10 ^ 21"
    using es sb unfolding abs_le_iff abs_less_iff by (simp?; linarith?)
  have et: "\<bar>toFixed 2 s1 - s1\<bar> \<le> 1 / 200" using toFixed_error [of 2 s1] by simp
  have "\<bar>toFixed 2 s1\<bar> \<le> 10 ^ 30"
    using et es sb unfolding abs_le_iff by (simp?; linarith?)
  then have "toFixed_num 2 (Fin s1) = Fin (fl64 (toFixed 2 s1))"
    using s21 by (simp add: to_js_fin)
  then have "toFixed_num 2 (jadd (Fin b0) (Fin w)) = Fin (fl64 (toFixed 2 s1))"
    by (simp only: a)
  then show "credit (Fin b0) (Fin w) = Fin (fl64 (toFixed 2 (fl64 (b0 + w))))"
    by (simp only: credit_def s1_def)
  show "\<bar>toFixed 2 (fl64 (b0 + w)) - (b0 + w)\<bar> \<le> 1 / 200 + 1 / 10 ^ 5"
    using et es unfolding s1_def abs_le_iff by (simp?; linarith?)
qed

lemma sum_abs_bound:
  assumes "2 * sum_list (map abs ws) \<le> (c::rat)"
  shows "2 * sum_list (map abs ws) / 2 ^ 53 \<le> c / 2 ^ 53"
  using assms by (intro divide_right_mono) simp_all

lemma fold_any:
  assumes fx: "list_all (fixed 2) ws"
    and b: "\<bar>b0\<bar> + 2 * sum_list (map abs ws) \<le> 10 ^ 9"
  shows "is_fin (foldl credit (Fin b0) (map Fin ws)) \<and>
         \<bar>num (foldl credit (Fin b0) (map Fin ws)) - (b0 + sum_list ws)\<bar> \<le> 1 / 100"
proof (cases ws)
  case Nil
  then show ?thesis by simp
next
  case (Cons w rest)
  from fx Cons have w: "fixed 2 w" and fr: "list_all (fixed 2) rest" by simp_all
  define A where "A = sum_list (map abs rest)"
  have An: "0 \<le> A" unfolding A_def by (rule sum_list_nonneg) auto
  have b': "\<bar>b0\<bar> + 2 * \<bar>w\<bar> + 2 * A \<le> 10 ^ 9" using b Cons by (simp add: A_def)
  define P1 where "P1 = toFixed 2 (fl64 (b0 + w))"
  have bw: "\<bar>b0\<bar> + \<bar>w\<bar> \<le> 10 ^ 10" using b' An by simp
  have c1: "credit (Fin b0) (Fin w) = Fin (fl64 P1)"
    and e1: "\<bar>P1 - (b0 + w)\<bar> \<le> 1 / 200 + 1 / 10 ^ 5"
    using credit_first [OF bw] by (simp_all add: P1_def)
  have d1: "decimals 2 P1" unfolding P1_def by (rule decimals_toFixed)
  have p1: "\<bar>P1\<bar> \<le> \<bar>b0\<bar> + \<bar>w\<bar> + 1"
    using e1 unfolding abs_le_iff by (simp?; linarith?)
  have m: "\<bar>P1\<bar> + 2 * sum_list (map abs rest) \<le> 10 ^ 10"
    using p1 b' An unfolding A_def [symmetric] by simp
  define G where "G = sum_list (map (toFixed 2) rest)"
  have f: "foldl credit (Fin (fl64 P1)) (map Fin rest) = Fin (fl64 (P1 + G))"
    unfolding G_def using d1 fr m by (rule fold_tracked)
  have ge: "\<bar>G - sum_list rest\<bar> \<le> 2 * A / 2 ^ 53" and gb: "\<bar>G\<bar> \<le> 2 * A"
    using sum_fixed_error [OF fr] by (simp_all add: G_def A_def)
  have "2 * A / 2 ^ 53 \<le> 10 ^ 9 / 2 ^ 53" using b' by (intro divide_right_mono) simp_all
  then have ge': "\<bar>G - sum_list rest\<bar> \<le> 1 / 10 ^ 5" using ge by simp
  have pg: "\<bar>P1 + G\<bar> \<le> 3 * 10 ^ 10"
    using p1 gb b' unfolding abs_le_iff by (simp?; linarith?)
  have ef: "\<bar>fl64 (P1 + G) - (P1 + G)\<bar> \<le> 1 / 10 ^ 5" using pg by (rule fl64_near)
  have r: "foldl credit (Fin b0) (map Fin ws) = Fin (fl64 (P1 + G))"
    by (simp add: Cons c1 f)
  have "\<bar>fl64 (P1 + G) - (b0 + sum_list ws)\<bar> \<le> 1 / 100"
    using ef e1 ge' unfolding Cons abs_le_iff by (simp?; linarith?)
  then show ?thesis by (simp add: r)
qed

lemma fold_fixed:
  assumes fx: "list_all (fixed 2) ws" and f0: "fixed 2 b0"
    and b: "\<bar>b0\<bar> + 2 * sum_list (map abs ws) \<le> 10 ^ 9"
  shows "foldl credit (Fin b0) (map Fin ws) =
           Fin (fl64 (toFixed 2 b0 + sum_list (map (toFixed 2) ws)))"
    and "toFixed 2 (fl64 (toFixed 2 b0 + sum_list (map (toFixed 2) ws))) =
           toFixed 2 b0 + sum_list (map (toFixed 2) ws)"
    and "\<bar>fl64 (toFixed 2 b0 + sum_list (map (toFixed 2) ws)) - (b0 + sum_list ws)\<bar>
           \<le> 1 / 10 ^ 6"
proof -
  define P0 where "P0 = toFixed 2 b0"
  define G where "G = sum_list (map (toFixed 2) ws)"
  define A where "A = sum_list (map abs ws)"
  have An: "0 \<le> A" unfolding A_def by (rule sum_list_nonneg) auto
  have b': "\<bar>b0\<bar> + 2 * A \<le> 10 ^ 9" using b by (simp add: A_def)
  have d0: "decimals 2 P0" and b0: "b0 = fl64 P0"
    using fixed_decimal [OF f0] by (simp_all add: P0_def)
  have e0: "\<bar>P0 - b0\<bar> \<le> 2 * \<bar>b0\<bar> / 2 ^ 53" and p0: "\<bar>P0\<bar> \<le> 2 * \<bar>b0\<bar>"
    using fixed2_rel [OF f0] by (simp_all add: P0_def)
  have m: "\<bar>P0\<bar> + 2 * sum_list (map abs ws) \<le> 10 ^ 10"
    using p0 b' An unfolding A_def [symmetric] by simp
  have "foldl credit (Fin (fl64 P0)) (map Fin ws) = Fin (fl64 (P0 + G))"
    unfolding G_def using d0 fx m by (rule fold_tracked)
  moreover have "fl64 P0 = b0" using f0 by (simp add: fixed_def P0_def)
  ultimately show "foldl credit (Fin b0) (map Fin ws) =
           Fin (fl64 (toFixed 2 b0 + sum_list (map (toFixed 2) ws)))"
    by (simp add: P0_def G_def)
  have ge: "\<bar>G - sum_list ws\<bar> \<le> 2 * A / 2 ^ 53" and gb: "\<bar>G\<bar> \<le> 2 * A"
    using sum_fixed_error [OF fx] by (simp_all add: G_def A_def)
  have dg: "decimals 2 (P0 + G)"
  proof -
    have "list_all (decimals 2) (map (toFixed 2) ws)"
      by (simp add: list_all_iff decimals_toFixed)
    moreover have "list_all (decimals 2) xs \<Longrightarrow> decimals 2 (sum_list xs)" for xs
    proof (induction xs)
      case Nil
      show ?case by (simp add: decimals_def)
    next
      case (Cons x xs)
      then show ?case by (simp add: decimals_add)
    qed
    ultimately have "decimals 2 G" unfolding G_def by blast
    with d0 show ?thesis by (rule decimals_add)
  qed
  have pg: "\<bar>P0 + G\<bar> \<le> 2 * 10 ^ 9"
    using p0 gb b' An unfolding abs_le_iff by (simp?; linarith?)
  then have "\<bar>P0 + G\<bar> \<le> 3 * 10 ^ 10" by simp
  with dg have "toFixed 2 (fl64 (P0 + G)) = P0 + G" by (rule fl64_fixed2)
  then show "toFixed 2 (fl64 (toFixed 2 b0 + sum_list (map (toFixed 2) ws))) =
           toFixed 2 b0 + sum_list (map (toFixed 2) ws)"
    by (simp only: P0_def G_def)
  have ef: "\<bar>fl64 (P0 + G) - (P0 + G)\<bar> \<le> (2 * 10 ^ 9 + 1) / 2 ^ 53"
  proof -
    have "\<bar>fl64 (P0 + G) - (P0 + G)\<bar> \<le> (\<bar>P0 + G\<bar> + 1) / 2 ^ 53" by (rule fl64_error)
    also have "\<dots> \<le> (2 * 10 ^ 9 + 1) / 2 ^ 53" using pg by (intro divide_right_mono) simp_all
    finally show ?thesis .
  qed
  have e0': "\<bar>P0 - b0\<bar> \<le> 2 * 10 ^ 9 / 2 ^ 53"
  proof -
    have "2 * \<bar>b0\<bar> / 2 ^ 53 \<le> 2 * 10 ^ 9 / 2 ^ 53"
      using b' An by (intro divide_right_mono) simp_all
    with e0 show ?thesis by linarith
  qed
  have ge': "\<bar>G - sum_list ws\<bar> \<le> 10 ^ 9 / 2 ^ 53"
  proof -
    have "2 * A / 2 ^ 53 \<le> 10 ^ 9 / 2 ^ 53" using b' by (intro divide_right_mono) simp_all
    with ge show ?thesis by linarith
  qed
  have "\<bar>fl64 (P0 + G) - (b0 + sum_list ws)\<bar> \<le> 1 / 10 ^ 6"
    using ef e0' ge' unfolding abs_le_iff by (simp?; linarith?)
  then show "\<bar>fl64 (toFixed 2 b0 + sum_list (map (toFixed 2) ws)) - (b0 + sum_list ws)\<bar>
           \<le> 1 / 10 ^ 6"
    by (simp only: P0_def G_def)
qed

lemma fills_of_Nil [simp]: "fills_of [] ys = []"
  by (simp add: fills_of_def)

lemma fills_of_Cons:
  "fills_of (a # xs) (b # ys) =
     (if status a = Pending \<and> status b = Filled
      then (case pnl b of None \<Rightarrow> [] | Some v \<Rightarrow> [v]) else []) @ fills_of xs ys"
  by (simp add: fills_of_def)

lemma settle_order_credit:
  "balance (snd (settle_order p d od s)) =
     foldl credit (balance s) (fills_of [od] [fst (settle_order p d od s)])"
  by (auto simp add: settle_order_def Let_def fills_of_Cons)

lemma settle_all_credit:
  "balance (snd (settle_all p env k os s)) =
     foldl credit (balance s) (fills_of os (fst (settle_all p env k os s)))"
proof (induction os arbitrary: k s)
  case Nil
  then show ?case by simp
next
  case (Cons od os)
  let ?r = "settle_order p (env k) od s"
  let ?k = "if status od = Pending then Suc k else k"
  have "fills_of (od # os) (fst (settle_all p env k (od # os) s)) =
        fills_of [od] [fst ?r] @ fills_of os (fst (settle_all p env ?k os (snd ?r)))"
    by (simp add: settle_all_Cons fills_of_Cons del: settle_all.simps(2))
  then show ?case
    using Cons.IH [of ?k "snd ?r"] settle_order_credit [of p "env k" od s]
    by (simp add: settle_all_Cons del: settle_all.simps(2))
qed

lemma sweep_credit:
  "balance (sweep env s) = foldl credit (balance s) (recorded_by (Sweep env) s)"
  by (simp add: sweep_balance sweep_orders settle_all_credit)

lemma step_credit:
  "no_adjustment a \<Longrightarrow> balance (step a s) = foldl credit (balance s) (recorded_by a s)"
  by (cases a) (simp_all add: sweep_credit mount_def tick_def placeOrder_def toggleConnect_def
      setToken_def runIndicator_def Let_def del: recorded_by.simps(1))

lemma run_credit:
  "list_all no_adjustment acts \<Longrightarrow>
   balance (run acts s) = foldl credit (balance s) (recorded acts s)"
proof (induction acts arbitrary: s)
  case Nil
  then show ?case by simp
next
  case (Cons a acts)
  from Cons.prems have a: "no_adjustment a" and rest: "list_all no_adjustment acts" by simp_all
  show ?case
    using Cons.IH [OF rest, of "step a s"] step_credit [OF a, of s] by simp
qed

lemma resolved_fill:
  assumes "resolved p a b" and "status a = Pending" and "status b = Filled"
  shows "pnl b = Some (profit_of p a)"
proof -
  from assms have "b = a\<lparr>status := Filled, filledAt := filledAt b, pnl := Some (profit_of p a)\<rparr>"
    unfolding resolved_def by auto
  then have "pnl b =
      pnl (a\<lparr>status := Filled, filledAt := filledAt b, pnl := Some (profit_of p a)\<rparr>)"
    by (rule arg_cong)
  then show ?thesis by simp
qed

lemma fills_of_rounded:
  assumes "list_all2 (resolved p) xs ys"
  shows "\<forall>q \<in> set (fills_of xs ys). \<exists>x. q = toFixed_num 2 x"
  using assms
proof (induction xs ys rule: list_all2_induct)
  case Nil
  then show ?case by simp
next
  case (Cons a xs b ys)
  show ?case
  proof (cases "status a = Pending \<and> status b = Filled")
    case True
    then have "pnl b = Some (profit_of p a)" using resolved_fill [OF Cons.hyps(1)] by blast
    then have h: "fills_of (a # xs) (b # ys) = profit_of p a # fills_of xs ys"
      using True by (simp add: fills_of_Cons)
    have "\<exists>x. profit_of p a = toFixed_num 2 x" unfolding profit_of_def by blast
    then show ?thesis unfolding h using Cons.IH by simp
  next
    case False
    then have h: "fills_of (a # xs) (b # ys) = fills_of xs ys"
      unfolding fills_of_Cons by (simp only: if_False append_Nil)
    show ?thesis unfolding h by (rule Cons.IH)
  qed
qed

lemma recorded_rounded:
  "\<forall>q \<in> set (recorded acts s). \<exists>x. q = toFixed_num 2 x"
proof (induction acts arbitrary: s)
  case Nil
  then show ?case by simp
next
  case (Cons a acts)
  have "\<forall>q \<in> set (recorded_by a s). \<exists>x. q = toFixed_num 2 x"
    by (cases a) (simp_all add: fills_of_rounded [OF sweep_resolved])
  then show ?case using Cons.IH [of "step a s"] by auto
qed

lemma toFixed_num_fixed:
  assumes "toFixed_num 2 x = Fin w" and b: "\<bar>w\<bar> \<le> 10 ^ 9"
  shows "fixed 2 w"
proof (cases x)
  case (Fin v)
  show ?thesis
  proof (cases "10 ^ 21 \<le> \<bar>v\<bar>")
    case True
    then have "w = v" using assms(1) Fin by simp
    with True b show ?thesis by simp
  next
    case False
    define G where "G = toFixed 2 v"
    have "\<bar>G - v\<bar> \<le> 1 / 200" using toFixed_error [of 2 v] by (simp add: G_def)
    then have "\<bar>G\<bar> \<le> 10 ^ 30"
      using False unfolding abs_le_iff by (simp?; linarith?)
    then have "to_js G = Fin (fl64 G)" by (rule to_js_fin)
    then have w: "w = fl64 G" using assms(1) Fin False by (simp add: G_def)
    have e: "\<bar>fl64 G - G\<bar> \<le> (\<bar>G\<bar> + 1) / 2 ^ 53" by (rule fl64_error)
    define g where "g = \<bar>G\<bar>"
    have 1: "g \<le> \<bar>w\<bar> + (g + 1) / 2 ^ 53" using e unfolding w g_def by linarith
    have 2: "0 \<le> g" by (simp add: g_def)
    define a where "a = \<bar>w\<bar>"
    from 1 2 b have "g \<le> 3 * 10 ^ 10"
      unfolding a_def [symmetric] by (simp add: field_simps)
    then have "\<bar>G\<bar> \<le> 3 * 10 ^ 10" by (simp add: g_def)
    moreover have "decimals 2 G" unfolding G_def by (rule decimals_toFixed)
    ultimately have "toFixed 2 (fl64 G) = G" by (intro fl64_fixed2)
    then show ?thesis by (simp add: fixed_def w)
  qed
qed (use assms in simp_all)

lemma map_Fin_num: "list_all is_fin qs \<Longrightarrow> map Fin (map num qs) = qs"
proof (induction qs)
  case Nil
  then show ?case by simp
next
  case (Cons q qs)
  then show ?case by (cases q) simp_all
qed

lemma elem_le_sum_abs: "w \<in> set ws \<Longrightarrow> \<bar>w\<bar> \<le> sum_list (map abs ws)" for w :: rat
proof (induction ws)
  case Nil
  then show ?case by simp
next
  case (Cons a ws)
  have "0 \<le> sum_list (map abs ws)" by (rule sum_list_nonneg) auto
  with Cons show ?case by auto
qed

section \<open>Order submission\<close>

text \<open>
  C1. The claim asks that a submission with a size of 0 or less fail with
  \<^verbatim>\<open>InvalidSize\<close> and leave the order list as it was. \<^verbatim>\<open>placeOrder\<close> does not
  look at the size: submitted on the initial state with size 0, and with size -1, it puts
  a pending order of that size at the current price in front of the list and publishes the
  order entry to the feed. Both sizes reach it from the form: the size field declares
  \<^verbatim>\<open>min={0.01}\<close>, which does not stop a typed value, and its handler stores
  \<^verbatim>\<open>Number(e.target.value)\<close>, 0 for a cleared field, which the Buy and Sell buttons
  pass on as it is.
\<close>

theorem placeOrder_accepts_nonpositive:
  "orders (placeOrder ''k3x9q2a'' ''10:00:00'' Buy (Fin 0) init_state) =
     [\<lparr>oid = ''k3x9q2a'', side = Buy, osize = Fin 0, oprice = price init_state,
       status = Pending, placedAt = ''10:00:00'', filledAt = None, pnl = None\<rparr>] \<and>
   orders (placeOrder ''k3x9q2a'' ''10:00:00'' Buy (Fin (- 1)) init_state) =
     [\<lparr>oid = ''k3x9q2a'', side = Buy, osize = Fin (- 1), oprice = price init_state,
       status = Pending, placedAt = ''10:00:00'', filledAt = None, pnl = None\<rparr>] \<and>
   orders init_state = [] \<and>
   map ftype (feed (placeOrder ''k3x9q2a'' ''10:00:00'' Buy (Fin (- 1)) init_state)) = [OrderEv]"
  by (simp add: placeOrder_def init_state_def Let_def publish_def)

section \<open>What a sweep leaves alone\<close>

text \<open>
  C10. A settlement sweep keeps the number of orders and, position by position, every
  order's id, side, size, entry price and placement time; it also keeps the price, the
  price history, the connection flag and the token. What is left to change is the status,
  \<^verbatim>\<open>filledAt\<close> and \<^verbatim>\<open>pnl\<close> of an order, the balance and the feed.
\<close>

theorem sweep_frame_effect:
  "length (orders (sweep env s)) = length (orders s) \<and>
   map oid (orders (sweep env s)) = map oid (orders s) \<and>
   map side (orders (sweep env s)) = map side (orders s) \<and>
   map osize (orders (sweep env s)) = map osize (orders s) \<and>
   map oprice (orders (sweep env s)) = map oprice (orders s) \<and>
   map placedAt (orders (sweep env s)) = map placedAt (orders s) \<and>
   price (sweep env s) = price s \<and> candles (sweep env s) = candles s \<and>
   connected (sweep env s) = connected s \<and> apiToken (sweep env s) = apiToken s"
  using list_all2_resolved_frame [OF sweep_resolved [of s env]] sweep_length [of env s]
    sweep_frame [of env s]
  by simp

section \<open>Profit of a fill\<close>



section \<open>Life cycle of an order\<close>

text \<open>
  C2. Starting from well-formed orders, every run of actions leaves every order well
  formed: \<^verbatim>\<open>pnl\<close> and \<^verbatim>\<open>filledAt\<close> are present exactly on filled orders. Along a run
  of sweeps, ticks and other actions that neither submit nor reset, the list keeps its
  length and an order that is filled stays as it is, field by field, so its status never
  goes back and its \<^verbatim>\<open>pnl\<close> and \<^verbatim>\<open>filledAt\<close> are final. A sweep does not evaluate
  filled orders again: the balance and the feed it produces are those of the same sweep
  over the pending orders alone.
\<close>

theorem order_lifecycle:
  assumes "list_all order_wf (orders s)"
  shows "list_all order_wf (orders (run acts s)) \<and>
         (list_all keeps_book acts \<longrightarrow>
            length (orders (run acts s)) = length (orders s) \<and>
            (\<forall>i < length (orders s). status (orders s ! i) = Filled \<longrightarrow>
               orders (run acts s) ! i = orders s ! i)) \<and>
         balance (sweep env (s\<lparr>orders := filter is_pending (orders s)\<rparr>)) = balance (sweep env s) \<and>
         feed (sweep env (s\<lparr>orders := filter is_pending (orders s)\<rparr>)) = feed (sweep env s)"
  using run_wf [OF assms, of acts] run_keeps_book [of acts s] sweep_pending_only [of env s]
  by blast

text \<open>
  The sample book is well formed; after a sweep, a tick and another sweep it still is, it
  still has three orders, and the order filled at the start is unchanged.
\<close>

theorem order_lifecycle_witness:
  "list_all order_wf (orders demo_state) \<and>
   list_all keeps_book [Sweep demo_env, Tick (1 / 4) ''10:00:05'', Sweep demo_env] \<and>
   status (orders demo_state ! 1) = Filled \<and>
   list_all order_wf
     (orders (run [Sweep demo_env, Tick (1 / 4) ''10:00:05'', Sweep demo_env] demo_state)) \<and>
   length (orders (run [Sweep demo_env, Tick (1 / 4) ''10:00:05'', Sweep demo_env] demo_state)) = 3 \<and>
   orders (run [Sweep demo_env, Tick (1 / 4) ''10:00:05'', Sweep demo_env] demo_state) ! 1 =
     demo_filled"
proof -
  let ?acts = "[Sweep demo_env, Tick (1 / 4) ''10:00:05'', Sweep demo_env]"
  have wf: "list_all order_wf (orders demo_state)"
    by (simp add: demo_state_def order_wf_def demo_buy_def demo_filled_def demo_sell_def)
  have kb: "list_all keeps_book ?acts" by simp
  have st: "status (orders demo_state ! 1) = Filled" "1 < length (orders demo_state)"
    "length (orders demo_state) = 3" "orders demo_state ! 1 = demo_filled"
    by (simp_all add: demo_state_def demo_filled_def)
  from order_lifecycle [OF wf, of ?acts demo_env] kb st wf show ?thesis by simp
qed

section \<open>Ledger\<close>

text \<open>
  C5, as the code has it. Take a run without deposit and reset, from a finite balance, in
  which every recorded profit is finite and the magnitude of the initial balance plus twice
  the sum of the magnitudes of the recorded profits is at most \<open>10^9\<close>. Then the final
  balance is finite and differs from the initial balance plus the sum of the recorded
  profits by at most 0.01. When the initial balance is a two-decimal amount, as 1000 is,
  the difference is at most \<open>10^-6\<close>, and to two decimals the final balance is exactly the
  initial balance plus the sum of the recorded profits.
\<close>

theorem ledger_follows_pnl:
  assumes "list_all no_adjustment acts"
    and "is_fin (balance s)"
    and "list_all is_fin (recorded acts s)"
    and "\<bar>num (balance s)\<bar> + 2 * sum_list (map (\<lambda>q. \<bar>num q\<bar>) (recorded acts s)) \<le> 10 ^ 9"
  shows "is_fin (balance (run acts s)) \<and>
         \<bar>num (balance (run acts s)) -
            (num (balance s) + sum_list (map num (recorded acts s)))\<bar> \<le> 1 / 100 \<and>
         (fixed 2 (num (balance s)) \<longrightarrow>
            \<bar>num (balance (run acts s)) -
               (num (balance s) + sum_list (map num (recorded acts s)))\<bar> \<le> 1 / 10 ^ 6 \<and>
            toFixed 2 (num (balance (run acts s))) =
              toFixed 2 (num (balance s)) +
                sum_list (map (\<lambda>q. toFixed 2 (num q)) (recorded acts s)))"
proof -
  define b0 where "b0 = num (balance s)"
  define ws where "ws = map num (recorded acts s)"
  have bs: "balance s = Fin b0" using assms(2) by (cases "balance s") (simp_all add: b0_def)
  have qs: "map Fin ws = recorded acts s" unfolding ws_def using assms(3) by (rule map_Fin_num)
  have sa: "sum_list (map (\<lambda>q. \<bar>num q\<bar>) (recorded acts s)) = sum_list (map abs ws)"
    by (simp add: ws_def comp_def)
  have b: "\<bar>b0\<bar> + 2 * sum_list (map abs ws) \<le> 10 ^ 9"
    using assms(4) by (simp only: sa b0_def)
  have fx: "list_all (fixed 2) ws"
    unfolding list_all_iff
  proof
    fix w assume w: "w \<in> set ws"
    then have "Fin w \<in> set (recorded acts s)" unfolding qs [symmetric] by simp
    then obtain x where x: "toFixed_num 2 x = Fin w" using recorded_rounded by metis
    have "\<bar>w\<bar> \<le> sum_list (map abs ws)" using w by (rule elem_le_sum_abs)
    then have "\<bar>w\<bar> \<le> 10 ^ 9" using b by simp
    with x show "fixed 2 w" by (rule toFixed_num_fixed)
  qed
  have run: "balance (run acts s) = foldl credit (Fin b0) (map Fin ws)"
    using run_credit [OF assms(1), of s] by (simp only: bs qs)
  have st: "sum_list (map (\<lambda>q. toFixed 2 (num q)) (recorded acts s)) =
      sum_list (map (toFixed 2) ws)"
    by (simp add: ws_def comp_def)
  note any = fold_any [OF fx b]
  have part: "\<bar>num (balance (run acts s)) - (b0 + sum_list ws)\<bar> \<le> 1 / 10 ^ 6 \<and>
      toFixed 2 (num (balance (run acts s))) = toFixed 2 b0 + sum_list (map (toFixed 2) ws)"
    if f0: "fixed 2 b0"
    using fold_fixed [OF fx f0 b] by (simp add: run)
  show ?thesis
    using any part unfolding run [symmetric] st b0_def [symmetric] ws_def [symmetric] by blast
qed

text \<open>
  C5 as stated fails for large sizes. After the mount at 1.09, a sell of size \<open>10^18\<close> is
  submitted, the price ticks down to 1.08925 (draw 0) and the sweep fills the order: the
  recorded profit is 75000000000002848 and the balance 75000000000003840, which is 8 less
  than the initial 1000 plus the profit. Doubles of that size are 16 apart.
\<close>

theorem ledger_off_at_large_size:
  "list_all no_adjustment
     [Mount demo_raw demo_tm, PlaceOrder ''q8r2m5x'' ''10:00:00'' Sell (to_js (10 ^ 18)),
      Tick 0 ''10:00:01'', Sweep demo_env] \<and>
   balance init_state = Fin 1000 \<and>
   recorded
     [Mount demo_raw demo_tm, PlaceOrder ''q8r2m5x'' ''10:00:00'' Sell (to_js (10 ^ 18)),
      Tick 0 ''10:00:01'', Sweep demo_env] init_state = [Fin 75000000000002848] \<and>
   balance (run
     [Mount demo_raw demo_tm, PlaceOrder ''q8r2m5x'' ''10:00:00'' Sell (to_js (10 ^ 18)),
      Tick 0 ''10:00:01'', Sweep demo_env] init_state) = Fin 75000000000003840 \<and>
   (75000000000003840 :: rat) - (1000 + 75000000000002848) = - 8"
proof -
  let ?acts = "[Mount demo_raw demo_tm,
      PlaceOrder ''q8r2m5x'' ''10:00:00'' Sell (to_js (10 ^ 18)),
      Tick 0 ''10:00:01'', Sweep demo_env]"
  have 1: "list_all no_adjustment ?acts" by simp
  have 2: "balance init_state = Fin 1000" by (simp add: init_state_def)
  have 3: "recorded ?acts init_state = [Fin 75000000000002848]" by code_simp
  have 4: "balance (run ?acts init_state) = Fin 75000000000003840" by code_simp
  have 5: "(75000000000003840 :: rat) - (1000 + 75000000000002848) = - 8" by simp
  from 1 2 3 4 5 show ?thesis by blast
qed

text \<open>
  On the sample book: 1000 at the start; a sweep, a tick and another sweep record 0 and
  3.35, and the balance is 1003.35.
\<close>

theorem ledger_follows_pnl_witness:
  "list_all no_adjustment [Sweep demo_env, Tick (1 / 4) ''10:00:05'', Sweep demo_env] \<and>
   balance demo_state = Fin 1000 \<and> fixed 2 1000 \<and>
   recorded [Sweep demo_env, Tick (1 / 4) ''10:00:05'', Sweep demo_env] demo_state =
     [Fin 0, to_js (335 / 100)] \<and>
   \<bar>1000\<bar> + 2 * sum_list (map (\<lambda>q. \<bar>num q\<bar>) [Fin 0, to_js (335 / 100)]) \<le> (10 ^ 9 :: rat) \<and>
   is_fin (balance (run [Sweep demo_env, Tick (1 / 4) ''10:00:05'', Sweep demo_env] demo_state)) \<and>
   toFixed 2 (num (balance (run [Sweep demo_env, Tick (1 / 4) ''10:00:05'', Sweep demo_env]
      demo_state))) = 100335 / 100"
proof -
  let ?acts = "[Sweep demo_env, Tick (1 / 4) ''10:00:05'', Sweep demo_env]"
  have so: "list_all no_adjustment ?acts" by simp
  have bal: "balance demo_state = Fin 1000"
    by (simp add: demo_state_def init_state_def)
  have fin: "is_fin (balance demo_state)" by (simp add: bal)
  have fx: "fixed 2 1000" by code_simp
  have rec: "recorded ?acts demo_state = [Fin 0, to_js (335 / 100)]" by code_simp
  have fr: "list_all is_fin (recorded ?acts demo_state)" unfolding rec by code_simp
  have mag: "\<bar>1000\<bar> + 2 * sum_list (map (\<lambda>q. \<bar>num q\<bar>) [Fin 0, to_js (335 / 100)]) \<le> (10 ^ 9 :: rat)"
    by code_simp
  have mag': "\<bar>num (balance demo_state)\<bar> +
      2 * sum_list (map (\<lambda>q. \<bar>num q\<bar>) (recorded ?acts demo_state)) \<le> 10 ^ 9"
    unfolding rec bal using mag by simp
  have fx': "fixed 2 (num (balance demo_state))" unfolding bal using fx by simp
  have dec: "toFixed 2 (num (balance demo_state)) +
      sum_list (map (\<lambda>q. toFixed 2 (num q)) (recorded ?acts demo_state)) = 100335 / 100"
    unfolding rec bal by code_simp
  from ledger_follows_pnl [OF so fin fr mag'] fx'
  have "is_fin (balance (run ?acts demo_state))"
    and "toFixed 2 (num (balance (run ?acts demo_state))) =
      toFixed 2 (num (balance demo_state)) +
        sum_list (map (\<lambda>q. toFixed 2 (num q)) (recorded ?acts demo_state))"
    by blast+
  then have "is_fin (balance (run ?acts demo_state))"
    and "toFixed 2 (num (balance (run ?acts demo_state))) = 100335 / 100"
    by (simp_all only: dec)
  with so bal fx rec mag show ?thesis by blast
qed

section \<open>Capacities\<close>

lemma bounded_init: "bounded init_state"
  by (simp add: bounded_def init_state_def)

lemma tick_candles:
  "candles (tick r t s) =
     drop (length (candles s) - 199) (candles s) @ [\<lparr>ctime = t, cprice = price (tick r t s)\<rparr>]"
  by (simp add: tick_def Let_def slice_last_def)

text \<open>
  C4. The bounds 50 (orders), 50 (feed) and 200 (price history) hold after every run of
  actions from a state that satisfies them, in particular from the initial state. Each
  insertion evicts from the old end: a submission gives the new order followed by the 49
  newest orders, a feed update the new entry followed by the 49 newest entries, a tick the
  199 newest candles followed by the new one.
\<close>

theorem capacities:
  "(bounded s \<longrightarrow> bounded (run acts s)) \<and>
   bounded (run acts init_state) \<and>
   orders (placeOrder newid t sd sz s) =
     \<lparr>oid = newid, side = sd, osize = sz, oprice = price s, status = Pending,
      placedAt = t, filledAt = None, pnl = None\<rparr> # take 49 (orders s) \<and>
   publish ev f = ev # take 49 f \<and>
   candles (tick r t s) =
     drop (length (candles s) - 199) (candles s) @ [\<lparr>ctime = t, cprice = price (tick r t s)\<rparr>]"
  using run_bounded [of s acts] run_bounded [OF bounded_init, of acts] tick_candles [of r t s]
  by (simp add: publish_eq placeOrder_def Let_def take_Cons')

text \<open>
  Sixty submissions from the initial state: the bounds hold, with 50 orders and 50 feed
  entries left.
\<close>

theorem capacities_witness:
  "bounded (run (replicate 60 (PlaceOrder ''k3x9q2a'' ''10:00:00'' Buy (Fin 1))) init_state) \<and>
   length (orders (run (replicate 60 (PlaceOrder ''k3x9q2a'' ''10:00:00'' Buy (Fin 1))) init_state)) = 50 \<and>
   length (feed (run (replicate 60 (PlaceOrder ''k3x9q2a'' ''10:00:00'' Buy (Fin 1))) init_state)) = 50"
proof -
  let ?acts = "replicate 60 (PlaceOrder ''k3x9q2a'' ''10:00:00'' Buy (Fin 1))"
  have b: "bounded init_state" by (simp add: bounded_def init_state_def)
  have l: "length (orders (run ?acts init_state)) = 50" by code_simp
  have f: "length (feed (run ?acts init_state)) = 50" by code_simp
  from capacities [of init_state ?acts] b l f show ?thesis by blast
qed

section \<open>Connecting\<close>

text \<open>
  C6. \<^verbatim>\<open>toggleConnect\<close> on a disconnected state is the connect request. Without a
  token it reports the failure as an error entry in the feed (``No API token configured'')
  and changes nothing else, so \<open>connected\<close> stays false. With a token it sets
  \<open>connected\<close>; the next call disconnects, and the two calls together leave the state as
  it was except for the feed, which has gained exactly two system entries.
\<close>

theorem connect_outcomes:
  "(\<not> connected s \<and> apiToken s = [] \<longrightarrow>
      toggleConnect t s =
        s\<lparr>feed := publish \<lparr>ftype = ErrorEv,
                           ftext = Literal ''No API token configured. Use settings.'',
                           ftime = t\<rparr> (feed s)\<rparr> \<and>
      connected (toggleConnect t s) = False) \<and>
   (\<not> connected s \<and> apiToken s \<noteq> [] \<longrightarrow>
      connected (toggleConnect t s) = True \<and>
      connected (toggleConnect t' (toggleConnect t s)) = False \<and>
      feed (toggleConnect t' (toggleConnect t s)) =
        take 50
          (\<lparr>ftype = SystemEv, ftext = Literal ''Disconnected from market'', ftime = t'\<rparr> #
           \<lparr>ftype = SystemEv, ftext = Literal ''Connected to market (mock)'', ftime = t\<rparr> #
           feed s) \<and>
      toggleConnect t' (toggleConnect t s) =
        s\<lparr>feed := feed (toggleConnect t' (toggleConnect t s))\<rparr>)"
  by (simp add: toggleConnect_def publish_def take_Cons')

text \<open>
  From the initial state: one call with no token, and two calls after a token was set.
\<close>

theorem connect_outcomes_witness:
  "\<not> connected init_state \<and> apiToken init_state = [] \<and>
   connected (toggleConnect ''10:00:00'' init_state) = False \<and>
   map ftype (feed (toggleConnect ''10:00:00'' init_state)) = [ErrorEv] \<and>
   \<not> connected (setToken ''token'' init_state) \<and> apiToken (setToken ''token'' init_state) \<noteq> [] \<and>
   connected (toggleConnect ''10:00:02'' (toggleConnect ''10:00:01''
      (setToken ''token'' init_state))) = False \<and>
   map ftype (feed (toggleConnect ''10:00:02'' (toggleConnect ''10:00:01''
      (setToken ''token'' init_state)))) = [SystemEv, SystemEv]"
proof -
  let ?s = "setToken ''token'' init_state"
  have a: "\<not> connected init_state \<and> apiToken init_state = []"
    by (simp add: init_state_def)
  have b: "\<not> connected ?s \<and> apiToken ?s \<noteq> []" "feed ?s = []"
    by (simp_all add: init_state_def setToken_def)
  have c: "feed init_state = []" by (simp add: init_state_def)
  from connect_outcomes [of init_state "''10:00:00''"] a
  have 1: "connected (toggleConnect ''10:00:00'' init_state) = False"
    "toggleConnect ''10:00:00'' init_state =
        init_state\<lparr>feed := publish \<lparr>ftype = ErrorEv,
                           ftext = Literal ''No API token configured. Use settings.'',
                           ftime = ''10:00:00''\<rparr> (feed init_state)\<rparr>"
    by blast+
  have 2: "map ftype (feed (toggleConnect ''10:00:00'' init_state)) = [ErrorEv]"
    by (subst 1(2)) (simp add: c publish_def)
  from connect_outcomes [of ?s "''10:00:01''" "''10:00:02''"] b(1)
  have 3: "connected (toggleConnect ''10:00:02'' (toggleConnect ''10:00:01'' ?s)) = False"
    "feed (toggleConnect ''10:00:02'' (toggleConnect ''10:00:01'' ?s)) =
        take 50
          (\<lparr>ftype = SystemEv, ftext = Literal ''Disconnected from market'', ftime = ''10:00:02''\<rparr> #
           \<lparr>ftype = SystemEv, ftext = Literal ''Connected to market (mock)'', ftime = ''10:00:01''\<rparr> #
           feed ?s)"
    by blast+
  have 4: "map ftype (feed (toggleConnect ''10:00:02'' (toggleConnect ''10:00:01'' ?s))) =
      [SystemEv, SystemEv]"
    by (subst 3(2)) (simp add: b(2))
  from a b(1) 1(1) 2 3(1) 4 show ?thesis by blast
qed

section \<open>Disconnecting\<close>

text \<open>
  C9, as the code has it. The only way to disconnect is \<^verbatim>\<open>toggleConnect\<close> on a
  connected state: it clears \<open>connected\<close>, publishes one system entry and changes nothing
  else. The operation is a toggle: the second call finds the state disconnected and takes
  the connect branch, so with a token configured it connects again.
\<close>

theorem disconnect_is_toggle:
  assumes "connected s"
  shows "toggleConnect t s =
           s\<lparr>connected := False,
             feed := publish \<lparr>ftype = SystemEv, ftext = Literal ''Disconnected from market'',
                              ftime = t\<rparr> (feed s)\<rparr> \<and>
         (apiToken s \<noteq> [] \<longrightarrow> connected (toggleConnect t' (toggleConnect t s)) = True)"
  using assms by (simp add: toggleConnect_def)

text \<open>
  C9 as stated fails: from the connected state reached by setting a token and connecting,
  one call leaves \<open>connected\<close> false and two calls leave it true.
\<close>

theorem disconnect_twice_reconnects:
  "connected (run [SetToken ''token'', ToggleConnect ''10:00:01''] init_state) = True \<and>
   connected (run [SetToken ''token'', ToggleConnect ''10:00:01'', ToggleConnect ''10:00:02'']
      init_state) = False \<and>
   connected (run [SetToken ''token'', ToggleConnect ''10:00:01'', ToggleConnect ''10:00:02'',
      ToggleConnect ''10:00:03''] init_state) = True"
  by (simp add: init_state_def setToken_def toggleConnect_def)

text \<open>The same state, through the theorem.\<close>

theorem disconnect_is_toggle_witness:
  "connected (run [SetToken ''token'', ToggleConnect ''10:00:01''] init_state) \<and>
   apiToken (run [SetToken ''token'', ToggleConnect ''10:00:01''] init_state) \<noteq> [] \<and>
   connected (toggleConnect ''10:00:02''
      (run [SetToken ''token'', ToggleConnect ''10:00:01''] init_state)) = False \<and>
   connected (toggleConnect ''10:00:03'' (toggleConnect ''10:00:02''
      (run [SetToken ''token'', ToggleConnect ''10:00:01''] init_state))) = True"
proof -
  let ?s = "run [SetToken ''token'', ToggleConnect ''10:00:01''] init_state"
  have c: "connected ?s" and k: "apiToken ?s \<noteq> []"
    by (simp_all add: init_state_def setToken_def toggleConnect_def)
  from disconnect_is_toggle [OF c, of "''10:00:02''" "''10:00:03''"] k
  have 1: "toggleConnect ''10:00:02'' ?s =
           ?s\<lparr>connected := False,
             feed := publish \<lparr>ftype = SystemEv, ftext = Literal ''Disconnected from market'',
                              ftime = ''10:00:02''\<rparr> (feed ?s)\<rparr>"
    and 2: "connected (toggleConnect ''10:00:03'' (toggleConnect ''10:00:02'' ?s)) = True"
    by blast+
  have 3: "connected (toggleConnect ''10:00:02'' ?s) = False"
    by (subst 1) simp
  from c k 2 3 show ?thesis by blast
qed

section \<open>Price ticks\<close>




section \<open>Account reset\<close>

text \<open>
  C7. From every state, whatever its balance and its orders, the reset action leaves the
  balance at 1000 and the order list empty.
\<close>

theorem resetAccount_canonical:
  "balance (resetAccount t s) = Fin 1000 \<and> orders (resetAccount t s) = []"
  by (simp add: resetAccount_def)

end
